theory Spec2Isabelle
  imports Complex_Main "HOL-Library.List_Lexorder" "HOL-Library.Char_ord"
begin

section \<open>Values of a deserialized model document\<close>

text \<open>
  \<^verbatim>\<open>json.load\<close> returns \<^verbatim>\<open>None\<close>, \<^verbatim>\<open>bool\<close>, \<^verbatim>\<open>int\<close>, \<^verbatim>\<open>float\<close>, \<^verbatim>\<open>str\<close>, \<^verbatim>\<open>list\<close> and \<^verbatim>\<open>dict\<close>
  values.  A \<^verbatim>\<open>dict\<close> keeps its insertion order, so it is an association list; Python never
  holds a key twice, and where a list does, the first binding is the one that is seen.  A
  character is a code point below 256.

  A \<^verbatim>\<open>float\<close> is a finite number, an infinity or NaN.  A finite float is given by its exact
  value and by the text that \<^verbatim>\<open>str\<close> returns for it (CPython's shortest decimal form that reads
  back as the same float, which is computed outside this repository; \<^verbatim>\<open>-0.0\<close> has the value 0
  and the text \<^verbatim>\<open>-0.0\<close>).  \<^verbatim>\<open>json.load\<close> reads \<^verbatim>\<open>Infinity\<close>, \<^verbatim>\<open>-Infinity\<close> and \<^verbatim>\<open>NaN\<close>, and returns for
  every \<^verbatim>\<open>NaN\<close> one and the same object of the \<^verbatim>\<open>json\<close> module.
\<close>

datatype pyfloat = Finite rat string | PosInf | NegInf | NaN

datatype json =
    JNull
  | JBool bool
  | JInt int
  | JFloat pyfloat
  | JStr string
  | JArr "json list"
  | JObj "(string \<times> json) list"

type_synonym node = "(string \<times> json) list"
type_synonym node_index = "(string \<times> node) list"

datatype error = AttributeError string

subsection \<open>Dictionary access\<close>

text \<open>\<^verbatim>\<open>d.get(k, default)\<close>; \<^verbatim>\<open>d.get(k)\<close> is \<^verbatim>\<open>d.get(k, None)\<close>.\<close>

definition dict_get :: "node \<Rightarrow> string \<Rightarrow> json \<Rightarrow> json" where
  "dict_get d k dflt = (case map_of d k of None \<Rightarrow> dflt | Some v \<Rightarrow> v)"

text \<open>\<^verbatim>\<open>d[k] = v\<close>: an existing key keeps its place, a new key goes to the end.\<close>

fun dict_set :: "('k \<times> 'v) list \<Rightarrow> 'k \<Rightarrow> 'v \<Rightarrow> ('k \<times> 'v) list" where
  "dict_set [] k v = [(k, v)]"
| "dict_set ((k', v') # d) k v =
     (if k' = k then (k, v) # d else (k', v') # dict_set d k v)"

subsection \<open>Truth value, equality\<close>

fun py_truthy :: "json \<Rightarrow> bool" where
  "py_truthy JNull = False"
| "py_truthy (JBool b) = b"
| "py_truthy (JInt i) = (i \<noteq> 0)"
| "py_truthy (JFloat x) = (case x of Finite q s \<Rightarrow> q \<noteq> 0 | _ \<Rightarrow> True)"
| "py_truthy (JStr s) = (s \<noteq> [])"
| "py_truthy (JArr xs) = (xs \<noteq> [])"
| "py_truthy (JObj d) = (d \<noteq> [])"

text \<open>
  \<^verbatim>\<open>==\<close> on floats: NaN is equal to nothing, itself included; an infinity is equal to
  itself; finite floats are equal when their values are, so \<^verbatim>\<open>0.0 == -0.0\<close>.  An \<^verbatim>\<open>int\<close> and a
  \<^verbatim>\<open>float\<close> are compared by their exact values.
\<close>

fun float_eq :: "pyfloat \<Rightarrow> pyfloat \<Rightarrow> bool" where
  "float_eq (Finite p s) (Finite q t) = (p = q)"
| "float_eq PosInf PosInf = True"
| "float_eq NegInf NegInf = True"
| "float_eq x y = False"

fun int_float_eq :: "int \<Rightarrow> pyfloat \<Rightarrow> bool" where
  "int_float_eq i (Finite q s) = (of_int i = q)"
| "int_float_eq i x = False"

text \<open>
  When \<^verbatim>\<open>==\<close> compares two lists or two dictionaries, it takes two elements that are the
  same object as equal without comparing them.  That matters for the one value that is not
  equal to itself: every NaN that \<^verbatim>\<open>json.load\<close> returns is the same object, so two NaN are
  unequal when compared directly and equal as elements of a list or values of a dictionary.
\<close>

definition py_same :: "json \<Rightarrow> json \<Rightarrow> bool" where
  "py_same x y = (x = JFloat NaN \<and> y = JFloat NaN)"

text \<open>
  \<^verbatim>\<open>==\<close> on these values: \<^verbatim>\<open>bool\<close> is a subclass of \<^verbatim>\<open>int\<close>, so \<^verbatim>\<open>True == 1\<close> and
  \<^verbatim>\<open>False == 0\<close>; lists are equal elementwise; dictionaries are equal when they have the
  same keys with equal values, whatever the order.
\<close>

function py_eq :: "json \<Rightarrow> json \<Rightarrow> bool" where
  "py_eq JNull JNull = True"
| "py_eq (JBool a) (JBool b) = (a = b)"
| "py_eq (JBool a) (JInt b) = ((if a then 1 else 0) = b)"
| "py_eq (JInt a) (JBool b) = (a = (if b then 1 else 0))"
| "py_eq (JInt a) (JInt b) = (a = b)"
| "py_eq (JStr a) (JStr b) = (a = b)"
| "py_eq (JArr xs) (JArr ys) =
     (length xs = length ys \<and> (\<forall>(x, y) \<in> set (zip xs ys). py_same x y \<or> py_eq x y))"
| "py_eq (JObj a) (JObj b) =
     (set (map fst a) = set (map fst b) \<and>
      (\<forall>k \<in> set (map fst a).
         case map_of a k of
           None \<Rightarrow> False
         | Some v \<Rightarrow> (case map_of b k of None \<Rightarrow> False | Some w \<Rightarrow> py_same v w \<or> py_eq v w)))"
| "py_eq (JBool a) (JFloat y) = int_float_eq (if a then 1 else 0) y"
| "py_eq (JFloat x) (JBool b) = int_float_eq (if b then 1 else 0) x"
| "py_eq (JInt a) (JFloat y) = int_float_eq a y"
| "py_eq (JFloat x) (JInt b) = int_float_eq b x"
| "py_eq (JFloat x) (JFloat y) = float_eq x y"
| "py_eq JNull (JBool b) = False"
| "py_eq JNull (JInt b) = False"
| "py_eq JNull (JFloat b) = False"
| "py_eq JNull (JStr b) = False"
| "py_eq JNull (JArr b) = False"
| "py_eq JNull (JObj b) = False"
| "py_eq (JBool a) JNull = False"
| "py_eq (JBool a) (JStr b) = False"
| "py_eq (JBool a) (JArr b) = False"
| "py_eq (JBool a) (JObj b) = False"
| "py_eq (JInt a) JNull = False"
| "py_eq (JInt a) (JStr b) = False"
| "py_eq (JInt a) (JArr b) = False"
| "py_eq (JInt a) (JObj b) = False"
| "py_eq (JFloat a) JNull = False"
| "py_eq (JFloat a) (JStr b) = False"
| "py_eq (JFloat a) (JArr b) = False"
| "py_eq (JFloat a) (JObj b) = False"
| "py_eq (JStr a) JNull = False"
| "py_eq (JStr a) (JBool b) = False"
| "py_eq (JStr a) (JInt b) = False"
| "py_eq (JStr a) (JFloat b) = False"
| "py_eq (JStr a) (JArr b) = False"
| "py_eq (JStr a) (JObj b) = False"
| "py_eq (JArr a) JNull = False"
| "py_eq (JArr a) (JBool b) = False"
| "py_eq (JArr a) (JInt b) = False"
| "py_eq (JArr a) (JFloat b) = False"
| "py_eq (JArr a) (JStr b) = False"
| "py_eq (JArr a) (JObj b) = False"
| "py_eq (JObj a) JNull = False"
| "py_eq (JObj a) (JBool b) = False"
| "py_eq (JObj a) (JInt b) = False"
| "py_eq (JObj a) (JFloat b) = False"
| "py_eq (JObj a) (JStr b) = False"
| "py_eq (JObj a) (JArr b) = False"
  by pat_completeness auto

termination py_eq
proof (relation "measure (\<lambda>(a, b). size a)", goal_cases)
  case 1
  show ?case by simp
next
  case (2 xs ys p x y)
  then have "x \<in> set xs" by (auto dest: set_zip_leftD)
  then have "size x \<le> size_list size xs" by (simp add: size_list_estimation')
  then show ?case by simp
next
  case (3 a b k v w)
  have "map_of d k = Some v \<Longrightarrow> size v < Suc (size_list (size_prod (\<lambda>x. 0) size) d)"
    for d :: "(string \<times> json) list"
    by (induction d) (auto split: if_splits)
  from this [OF 3(2)] show ?case
    by simp
qed

text \<open>Equality of two dictionaries, \<^verbatim>\<open>node_a == node_b\<close>.\<close>

definition dict_eq :: "node \<Rightarrow> node \<Rightarrow> bool" where
  "dict_eq a b = py_eq (JObj a) (JObj b)"

subsection \<open>String coercion\<close>

text \<open>\<^verbatim>\<open>str\<close> of an \<^verbatim>\<open>int\<close>: decimal digits, with a minus sign below zero.\<close>

function str_nat :: "nat \<Rightarrow> string" where
  "str_nat n =
     (if n < 10 then [''0123456789'' ! n]
      else str_nat (n div 10) @ [''0123456789'' ! (n mod 10)])"
  by pat_completeness auto
termination
  by (relation "measure id") auto

definition str_int :: "int \<Rightarrow> string" where
  "str_int i = (if i < 0 then CHR ''-'' # str_nat (nat (- i)) else str_nat (nat i))"

text \<open>
  \<^verbatim>\<open>repr\<close> of a \<^verbatim>\<open>str\<close>: double quotes when the text holds a single quote and no double
  quote, single quotes otherwise; the quote and the backslash are escaped, tab, newline
  and carriage return are written \<^verbatim>\<open>\t\<close>, \<^verbatim>\<open>\n\<close>, \<^verbatim>\<open>\r\<close>, and every other code point that
  is not printable is written \<^verbatim>\<open>\xNN\<close>.
\<close>

definition hex2 :: "nat \<Rightarrow> string" where
  "hex2 n = [''0123456789abcdef'' ! (n div 16), ''0123456789abcdef'' ! (n mod 16)]"

definition printable :: "char \<Rightarrow> bool" where
  "printable c =
     (let n = (of_char c :: nat)
      in (32 \<le> n \<and> n < 127) \<or> (161 \<le> n \<and> n \<noteq> 173))"

definition repr_char :: "char \<Rightarrow> char \<Rightarrow> string" where
  "repr_char q c =
     (if c = q \<or> c = CHR 0x5C then [CHR 0x5C, c]
      else if c = CHR 0x09 then [CHR 0x5C, CHR ''t'']
      else if c = CHR 0x0A then [CHR 0x5C, CHR ''n'']
      else if c = CHR 0x0D then [CHR 0x5C, CHR ''r'']
      else if printable c then [c]
      else [CHR 0x5C, CHR ''x''] @ hex2 (of_char c))"

definition repr_str :: "string \<Rightarrow> string" where
  "repr_str s =
     (let q = (if CHR 0x27 \<in> set s \<and> CHR 0x22 \<notin> set s then CHR 0x22 else CHR 0x27)
      in [q] @ concat (map (repr_char q) s) @ [q])"

fun join :: "string \<Rightarrow> string list \<Rightarrow> string" where
  "join sep [] = []"
| "join sep [x] = x"
| "join sep (x # y # ys) = x @ sep @ join sep (y # ys)"

fun py_repr :: "json \<Rightarrow> string" where
  "py_repr JNull = ''None''"
| "py_repr (JBool b) = (if b then ''True'' else ''False'')"
| "py_repr (JInt i) = str_int i"
| "py_repr (JFloat x) =
     (case x of Finite q s \<Rightarrow> s | PosInf \<Rightarrow> ''inf'' | NegInf \<Rightarrow> ''-inf'' | NaN \<Rightarrow> ''nan'')"
| "py_repr (JStr s) = repr_str s"
| "py_repr (JArr xs) = ''['' @ join '', '' (map py_repr xs) @ '']''"
| "py_repr (JObj d) =
     ''{'' @ join '', '' (map (\<lambda>p. repr_str (fst p) @ '': '' @ py_repr (snd p)) d) @ ''}''"

text \<open>\<^verbatim>\<open>str(x)\<close>, which is also what an f-string writes for \<^verbatim>\<open>{x}\<close>.\<close>

fun py_str :: "json \<Rightarrow> string" where
  "py_str (JStr s) = s"
| "py_str v = py_repr v"

section \<open>Extraction: \<^verbatim>\<open>load_nodes_by_id\<close>\<close>

text \<open>
  The function is modelled from the point where \<^verbatim>\<open>json.load\<close> has returned \<^verbatim>\<open>data\<close>.
  \<^verbatim>\<open>data.get\<close> exists on a \<^verbatim>\<open>dict\<close> only: on any other value the attribute lookup raises
  \<^verbatim>\<open>AttributeError\<close>, which carries the name of the attribute.
\<close>

text \<open>The loop \<^verbatim>\<open>for node in nodes\<close>.\<close>

fun scan_nodes :: "json list \<Rightarrow> node_index \<Rightarrow> node_index" where
  "scan_nodes [] nodes_by_id = nodes_by_id"
| "scan_nodes (node # rest) nodes_by_id =
     (case node of
        JObj n \<Rightarrow>
          (let nid = dict_get n ''nodeid'' JNull
           in if py_truthy nid
              then scan_nodes rest (dict_set nodes_by_id (py_str nid) n)
              else scan_nodes rest nodes_by_id)
      | _ \<Rightarrow> scan_nodes rest nodes_by_id)"

text \<open>The loop \<^verbatim>\<open>for graph in graphs\<close>.\<close>

fun scan_graphs :: "json list \<Rightarrow> node_index \<Rightarrow> node_index" where
  "scan_graphs [] nodes_by_id = nodes_by_id"
| "scan_graphs (graph # rest) nodes_by_id =
     (case graph of
        JObj g \<Rightarrow>
          (case dict_get g ''nodes'' (JArr []) of
             JArr nodes \<Rightarrow> scan_graphs rest (scan_nodes nodes nodes_by_id)
           | _ \<Rightarrow> scan_graphs rest nodes_by_id)
      | _ \<Rightarrow> scan_graphs rest nodes_by_id)"

definition load_nodes_by_id :: "json \<Rightarrow> error + node_index" where
  "load_nodes_by_id data =
     (case data of
        JObj d \<Rightarrow>
          (let graphs = dict_get d ''graph'' (JArr []);
               graphs = (case graphs of JArr gs \<Rightarrow> gs | _ \<Rightarrow> [graphs])
           in Inr (scan_graphs graphs []))
      | _ \<Rightarrow> Inl (AttributeError ''get''))"

section \<open>Normalisation of identity fields: \<^verbatim>\<open>cast_node\<close>\<close>



section \<open>Comparison: \<^verbatim>\<open>compare_nodes\<close>\<close>

record node_summary =
  nodeid :: string
  name :: json
  nodegroup_id :: string

record field_diff =
  first_file :: json
  second_file :: json

record results =
  only_in_first_file :: "node_summary list"
  only_in_second_file :: "node_summary list"
  present_in_both :: "node_summary list"
  differing_fields :: "(string \<times> (string \<times> field_diff) list) list"

text \<open>The dictionary literal that each of the three branches appends.\<close>

definition summary_record :: "string \<Rightarrow> node \<Rightarrow> node_summary" where
  "summary_record nid n =
     \<lparr>nodeid = nid,
      name = dict_get n ''name'' (JStr ''Unknown''),
      nodegroup_id =
        ''NODE_GROUP_ID: '' @ py_str (dict_get n ''nodegroup_id'' (JStr ''Unknown''))\<rparr>"

text \<open>
  \<^verbatim>\<open>file_a_nodes.get(nodeid)\<close> is \<^verbatim>\<open>None\<close> for a missing key.  The branches test the truth
  value of what was looked up: \<^verbatim>\<open>None\<close> and the empty dictionary are both false.
\<close>

definition node_truthy :: "node option \<Rightarrow> bool" where
  "node_truthy x = (case x of None \<Rightarrow> False | Some d \<Rightarrow> d \<noteq> [])"

text \<open>\<^verbatim>\<open>node_a != node_b\<close>, where either side may be \<^verbatim>\<open>None\<close>.\<close>

definition node_ne :: "node option \<Rightarrow> node option \<Rightarrow> bool" where
  "node_ne x y =
     (case x of
        None \<Rightarrow> (case y of None \<Rightarrow> False | Some b \<Rightarrow> True)
      | Some a \<Rightarrow> (case y of None \<Rightarrow> True | Some b \<Rightarrow> \<not> dict_eq a b))"

text \<open>The loop \<^verbatim>\<open>for key in sorted(all_keys)\<close>.\<close>

fun diff_fields ::
  "string list \<Rightarrow> node \<Rightarrow> node \<Rightarrow> (string \<times> field_diff) list \<Rightarrow> (string \<times> field_diff) list"
where
  "diff_fields [] node_a node_b differences = differences"
| "diff_fields (key # rest) node_a node_b differences =
     (let val_a = dict_get node_a key JNull;
          val_b = dict_get node_b key JNull
      in if \<not> py_eq val_a val_b
         then diff_fields rest node_a node_b
                (dict_set differences key \<lparr>first_file = val_a, second_file = val_b\<rparr>)
         else diff_fields rest node_a node_b differences)"

text \<open>
  One pass of the body of \<^verbatim>\<open>for nodeid in sorted(all_nodeids)\<close>.  In the last branch
  \<^verbatim>\<open>node_a.get\<close> raises when \<^verbatim>\<open>node_a\<close> is \<^verbatim>\<open>None\<close>, and \<^verbatim>\<open>node_b.keys()\<close> raises when
  \<^verbatim>\<open>node_b\<close> is \<^verbatim>\<open>None\<close>.
\<close>

definition compare_step ::
  "string \<Rightarrow> node_index \<Rightarrow> node_index \<Rightarrow> results \<Rightarrow> error + results"
where
  "compare_step nid file_a_nodes file_b_nodes res =
     (let node_a = map_of file_a_nodes nid;
          node_b = map_of file_b_nodes nid
      in if node_truthy node_a \<and> \<not> node_truthy node_b then
           (case node_a of
              None \<Rightarrow> Inl (AttributeError ''get'')
            | Some a \<Rightarrow>
                Inr (res\<lparr>only_in_first_file :=
                           only_in_first_file res @ [summary_record nid a]\<rparr>))
         else if node_truthy node_b \<and> \<not> node_truthy node_a then
           (case node_b of
              None \<Rightarrow> Inl (AttributeError ''get'')
            | Some b \<Rightarrow>
                Inr (res\<lparr>only_in_second_file :=
                           only_in_second_file res @ [summary_record nid b]\<rparr>))
         else
           (case node_a of
              None \<Rightarrow> Inl (AttributeError ''get'')
            | Some a \<Rightarrow>
                (let res = res\<lparr>present_in_both :=
                                 present_in_both res @ [summary_record nid a]\<rparr>
                 in if node_ne node_a node_b then
                      (case node_b of
                         None \<Rightarrow> Inl (AttributeError ''keys'')
                       | Some b \<Rightarrow>
                           (let all_keys = set (map fst a) \<union> set (map fst b);
                                differences =
                                  diff_fields (sorted_list_of_set all_keys) a b []
                            in if differences \<noteq> []
                               then Inr (res\<lparr>differing_fields :=
                                          dict_set (differing_fields res) nid differences\<rparr>)
                               else Inr res))
                    else Inr res)))"

fun compare_loop ::
  "string list \<Rightarrow> node_index \<Rightarrow> node_index \<Rightarrow> results \<Rightarrow> error + results"
where
  "compare_loop [] file_a_nodes file_b_nodes res = Inr res"
| "compare_loop (nid # rest) file_a_nodes file_b_nodes res =
     (case compare_step nid file_a_nodes file_b_nodes res of
        Inl e \<Rightarrow> Inl e
      | Inr res' \<Rightarrow> compare_loop rest file_a_nodes file_b_nodes res')"

definition compare_nodes :: "node_index \<Rightarrow> node_index \<Rightarrow> error + results" where
  "compare_nodes file_a_nodes file_b_nodes =
     (let all_nodeids = set (map fst file_a_nodes) \<union> set (map fst file_b_nodes)
      in compare_loop (sorted_list_of_set all_nodeids) file_a_nodes file_b_nodes
           \<lparr>only_in_first_file = [], only_in_second_file = [],
            present_in_both = [], differing_fields = []\<rparr>)"

text \<open>The counts that \<^verbatim>\<open>main\<close> stores under \<^verbatim>\<open>results['summary']\<close>.\<close>

record summary =
  total_nodes_file1 :: nat
  total_nodes_file2 :: nat
  only_in_file1_count :: nat
  only_in_file2_count :: nat
  common_nodes_count :: nat
  nodes_with_differences :: nat

definition main_summary :: "node_index \<Rightarrow> node_index \<Rightarrow> results \<Rightarrow> summary" where
  "main_summary nodes_a nodes_b res =
     \<lparr>total_nodes_file1 = length nodes_a,
      total_nodes_file2 = length nodes_b,
      only_in_file1_count = length (only_in_first_file res),
      only_in_file2_count = length (only_in_second_file res),
      common_nodes_count = length (present_in_both res),
      nodes_with_differences = length (differing_fields res)\<rparr>"

section \<open>Auxiliary notions for the proofs\<close>

text \<open>The field differences that the inner loop of \<^verbatim>\<open>compare_nodes\<close> collects for two records.\<close>

definition field_diffs :: "node \<Rightarrow> node \<Rightarrow> (string \<times> field_diff) list" where
  "field_diffs a b =
     diff_fields (sorted_list_of_set (set (map fst a) \<union> set (map fst b))) a b []"

text \<open>
  The conditions of the three branches of the outer loop for a node identifier, the
  condition under which the last branch raises (a side is \<^verbatim>\<open>None\<close>), and the condition under
  which it stores an entry in \<^verbatim>\<open>differing_fields\<close>.
\<close>

definition in_first :: "node_index \<Rightarrow> node_index \<Rightarrow> string \<Rightarrow> bool" where
  "in_first A B k = (node_truthy (map_of A k) \<and> \<not> node_truthy (map_of B k))"

definition in_second :: "node_index \<Rightarrow> node_index \<Rightarrow> string \<Rightarrow> bool" where
  "in_second A B k = (node_truthy (map_of B k) \<and> \<not> node_truthy (map_of A k))"

definition in_both :: "node_index \<Rightarrow> node_index \<Rightarrow> string \<Rightarrow> bool" where
  "in_both A B k = (node_truthy (map_of A k) = node_truthy (map_of B k))"

definition step_fails :: "node_index \<Rightarrow> node_index \<Rightarrow> string \<Rightarrow> bool" where
  "step_fails A B k = (in_both A B k \<and> (map_of A k = None \<or> map_of B k = None))"

definition has_diffs :: "node_index \<Rightarrow> node_index \<Rightarrow> string \<Rightarrow> bool" where
  "has_diffs A B k =
     (in_both A B k \<and>
      (case map_of A k of
         None \<Rightarrow> False
       | Some a \<Rightarrow>
           (case map_of B k of
              None \<Rightarrow> False
            | Some b \<Rightarrow> \<not> dict_eq a b \<and> field_diffs a b \<noteq> [])))"

text \<open>
  The node identifiers in the order of the outer loop, and the result that the loop builds
  when no pass raises.
\<close>

definition node_ids :: "node_index \<Rightarrow> node_index \<Rightarrow> string list" where
  "node_ids A B = sorted_list_of_set (set (map fst A) \<union> set (map fst B))"

definition closed_results :: "node_index \<Rightarrow> node_index \<Rightarrow> results" where
  "closed_results A B =
     \<lparr>only_in_first_file =
        map (\<lambda>k. summary_record k (the (map_of A k))) (filter (in_first A B) (node_ids A B)),
      only_in_second_file =
        map (\<lambda>k. summary_record k (the (map_of B k))) (filter (in_second A B) (node_ids A B)),
      present_in_both =
        map (\<lambda>k. summary_record k (the (map_of A k))) (filter (in_both A B) (node_ids A B)),
      differing_fields =
        map (\<lambda>k. (k, field_diffs (the (map_of A k)) (the (map_of B k))))
          (filter (has_diffs A B) (node_ids A B))\<rparr>"

text \<open>What \<^verbatim>\<open>cast_node\<close> puts in the place of the value of an identity field.\<close>

definition cast_value :: "json \<Rightarrow> json" where
  "cast_value v = (if v \<noteq> JNull then JStr (py_str v) else v)"

text \<open>
  The extraction as the specification words it: the graph entries of a document, the node
  entries of all its graphs in document order, the key under which a node entry is indexed
  (none when the entry is skipped), and the record that is kept for an entry.
\<close>

definition spec_graph_entries :: "node \<Rightarrow> json list" where
  "spec_graph_entries d =
     (case map_of d ''graph'' of
        None \<Rightarrow> []
      | Some (JArr gs) \<Rightarrow> gs
      | Some g \<Rightarrow> [g])"

definition spec_graph_nodes :: "json \<Rightarrow> json list" where
  "spec_graph_nodes g =
     (case g of
        JObj go \<Rightarrow> (case map_of go ''nodes'' of Some (JArr ns) \<Rightarrow> ns | _ \<Rightarrow> [])
      | _ \<Rightarrow> [])"

definition spec_node_entries :: "node \<Rightarrow> json list" where
  "spec_node_entries d = concat (map spec_graph_nodes (spec_graph_entries d))"

definition spec_node_key :: "json \<Rightarrow> string option" where
  "spec_node_key n =
     (case n of
        JObj f \<Rightarrow>
          (case map_of f ''nodeid'' of
             None \<Rightarrow> None
           | Some v \<Rightarrow> if py_truthy v then Some (py_str v) else None)
      | _ \<Rightarrow> None)"

definition spec_node_fields :: "json \<Rightarrow> node option" where
  "spec_node_fields n = (case n of JObj f \<Rightarrow> Some f | _ \<Rightarrow> None)"

definition spec_index :: "node \<Rightarrow> string \<Rightarrow> node option" where
  "spec_index d k =
     (case filter (\<lambda>n. spec_node_key n = Some k) (spec_node_entries d) of
        [] \<Rightarrow> None
      | m # ms \<Rightarrow> spec_node_fields (last (m # ms)))"

section \<open>Dictionaries and equality\<close>

lemma map_of_dict_set: "map_of (dict_set d k v) = (map_of d)(k \<mapsto> v)"
  by (induction d k v rule: dict_set.induct) (auto simp: fun_eq_iff)

lemma dict_set_fresh: "k \<notin> fst ` set d \<Longrightarrow> dict_set d k v = d @ [(k, v)]"
  by (induction d k v rule: dict_set.induct) auto

lemma keys_dict_set: "fst ` set (dict_set d k v) = insert k (fst ` set d)"
  by (induction d k v rule: dict_set.induct) auto

lemma dict_get_absent: "k \<notin> set (map fst d) \<Longrightarrow> dict_get d k dflt = dflt"
  by (induction d) (auto simp: dict_get_def)

lemma map_of_map_filter:
  "map_of (map (\<lambda>k. (k, f k)) (filter P ks)) k = (if k \<in> set ks \<and> P k then Some (f k) else None)"
  by (induction ks) auto

lemma float_eq_sym: "float_eq x y = float_eq y x"
  by (cases x; cases y) auto

lemma py_same_sym: "py_same x y = py_same y x"
  by (auto simp: py_same_def)

lemma py_eq_sym: "py_eq a b = py_eq b a"
proof (induction a b rule: py_eq.induct)
  case (7 xs ys)
  define E where "E = (\<lambda>x y. py_same x y \<or> py_eq x y)"
  have ih: "E (xs ! i) (ys ! i) = E (ys ! i) (xs ! i)"
    if "i < length xs" "i < length ys" for i
  proof -
    from that have "(xs ! i, ys ! i) \<in> set (zip xs ys)"
      by (auto simp: in_set_zip)
    then have "py_eq (xs ! i) (ys ! i) = py_eq (ys ! i) (xs ! i)" using 7 by blast
    then show ?thesis unfolding E_def using py_same_sym [of "xs ! i" "ys ! i"] by simp
  qed
  have "list_all2 E xs ys = list_all2 E ys xs"
    unfolding list_all2_conv_all_nth using ih by auto
  then show ?case unfolding E_def by (simp add: list_all2_iff)
next
  case (8 a b)
  let ?X = "\<lambda>k. case map_of a k of None \<Rightarrow> False
           | Some v \<Rightarrow> (case map_of b k of None \<Rightarrow> False | Some w \<Rightarrow> py_same v w \<or> py_eq v w)"
  let ?Y = "\<lambda>k. case map_of b k of None \<Rightarrow> False
           | Some w \<Rightarrow> (case map_of a k of None \<Rightarrow> False | Some v \<Rightarrow> py_same w v \<or> py_eq w v)"
  have step: "?X k = ?Y k" if "k \<in> set (map fst a)" for k
    using 8 [OF that] by (auto split: option.splits simp: py_same_sym)
  have "(set (map fst a) = set (map fst b) \<and> (\<forall>k \<in> set (map fst a). ?X k)) =
        (set (map fst b) = set (map fst a) \<and> (\<forall>k \<in> set (map fst b). ?Y k))"
    using step by blast
  then show ?case by (simp only: py_eq.simps)
qed (auto simp: float_eq_sym)

lemma dict_eq_sym: "dict_eq a b = dict_eq b a"
  unfolding dict_eq_def by (rule py_eq_sym)

lemma dict_eq_get:
  assumes "dict_eq a b"
  shows "py_same (dict_get a k JNull) (dict_get b k JNull) \<or>
         py_eq (dict_get a k JNull) (dict_get b k JNull)"
proof (cases "k \<in> set (map fst a)")
  case True
  let ?X = "\<lambda>k. case map_of a k of None \<Rightarrow> False
           | Some v \<Rightarrow> (case map_of b k of None \<Rightarrow> False | Some w \<Rightarrow> py_same v w \<or> py_eq v w)"
  from assms have "\<forall>k \<in> set (map fst a). ?X k"
    unfolding dict_eq_def py_eq.simps by (rule conjunct2)
  with True have "?X k" by blast
  then show ?thesis
    by (simp add: dict_get_def split: option.splits)
next
  case False
  from assms have "set (map fst a) = set (map fst b)"
    unfolding dict_eq_def py_eq.simps by (rule conjunct1)
  with False have "k \<notin> set (map fst b)" by simp
  with False have "map_of a k = None" "map_of b k = None"
    by (simp_all add: map_of_eq_None_iff)
  then show ?thesis by (simp add: dict_get_def)
qed

lemma cast_value_idem: "cast_value (cast_value v) = cast_value v"
  by (simp add: cast_value_def)



section \<open>The field differences of two records\<close>

lemma diff_fields_closed:
  "distinct ks \<Longrightarrow> set ks \<inter> fst ` set acc = {} \<Longrightarrow>
   diff_fields ks a b acc =
     acc @ map (\<lambda>k. (k, \<lparr>first_file = dict_get a k JNull, second_file = dict_get b k JNull\<rparr>))
             (filter (\<lambda>k. \<not> py_eq (dict_get a k JNull) (dict_get b k JNull)) ks)"
proof (induction ks arbitrary: acc)
  case Nil
  then show ?case by simp
next
  case (Cons k ks)
  from Cons.prems have fresh: "k \<notin> fst ` set acc" by auto
  show ?case
  proof (cases "py_eq (dict_get a k JNull) (dict_get b k JNull)")
    case True
    with Cons show ?thesis by (simp add: Let_def)
  next
    case False
    let ?acc = "acc @ [(k, \<lparr>first_file = dict_get a k JNull, second_file = dict_get b k JNull\<rparr>)]"
    from Cons.prems have "distinct ks" "set ks \<inter> fst ` set ?acc = {}" by auto
    from Cons.IH [OF this] False fresh show ?thesis
      by (simp add: Let_def dict_set_fresh)
  qed
qed

lemma field_diffs_closed:
  "field_diffs a b =
     map (\<lambda>k. (k, \<lparr>first_file = dict_get a k JNull, second_file = dict_get b k JNull\<rparr>))
       (filter (\<lambda>k. \<not> py_eq (dict_get a k JNull) (dict_get b k JNull))
          (sorted_list_of_set (set (map fst a) \<union> set (map fst b))))"
  unfolding field_diffs_def by (subst diff_fields_closed) simp_all

lemma map_of_field_diffs:
  "map_of (field_diffs a b) k =
     (if \<not> py_eq (dict_get a k JNull) (dict_get b k JNull)
      then Some \<lparr>first_file = dict_get a k JNull, second_file = dict_get b k JNull\<rparr>
      else None)"
proof (cases "k \<in> set (map fst a) \<union> set (map fst b)")
  case True
  then show ?thesis
    unfolding field_diffs_closed map_of_map_filter by simp
next
  case False
  then have "dict_get a k JNull = JNull" "dict_get b k JNull = JNull"
    by (simp_all add: dict_get_absent)
  then show ?thesis
    unfolding field_diffs_closed map_of_map_filter by simp
qed

lemma field_diffs_swap:
  "field_diffs b a =
     map (\<lambda>(k, d). (k, \<lparr>first_file = second_file d, second_file = first_file d\<rparr>)) (field_diffs a b)"
  unfolding field_diffs_closed
  by (simp add: Un_commute py_eq_sym [of "dict_get b _ JNull"] comp_def)

lemma field_diffs_empty_iff:
  "field_diffs a b = [] \<longleftrightarrow> (\<forall>k. py_eq (dict_get a k JNull) (dict_get b k JNull))"
proof -
  have "field_diffs a b = [] \<longleftrightarrow> (\<forall>k. map_of (field_diffs a b) k = None)"
    by (cases "field_diffs a b") (auto simp: fun_eq_iff)
  then show ?thesis by (simp add: map_of_field_diffs)
qed

lemma field_diffs_swap_empty: "field_diffs b a = [] \<longleftrightarrow> field_diffs a b = []"
  by (simp add: field_diffs_empty_iff py_eq_sym [of "dict_get b _ JNull"])

lemma sorted_field_diffs: "sorted_wrt (<) (map fst (field_diffs a b))"
proof -
  have "sorted_wrt (<) (sorted_list_of_set (set (map fst a) \<union> set (map fst b)))"
    by (simp add: strict_sorted_iff)
  then show ?thesis
    unfolding field_diffs_closed by (simp add: comp_def sorted_wrt_filter)
qed

section \<open>The loop of \<^verbatim>\<open>compare_nodes\<close>\<close>

lemma compare_step_eq:
  "compare_step k A B r =
     (if in_first A B k then
        Inr (r\<lparr>only_in_first_file :=
                 only_in_first_file r @ [summary_record k (the (map_of A k))]\<rparr>)
      else if in_second A B k then
        Inr (r\<lparr>only_in_second_file :=
                 only_in_second_file r @ [summary_record k (the (map_of B k))]\<rparr>)
      else if map_of A k = None then Inl (AttributeError ''get'')
      else if map_of B k = None then Inl (AttributeError ''keys'')
      else
        Inr (r\<lparr>present_in_both :=
                 present_in_both r @ [summary_record k (the (map_of A k))],
               differing_fields :=
                 (if has_diffs A B k
                  then dict_set (differing_fields r) k
                         (field_diffs (the (map_of A k)) (the (map_of B k)))
                  else differing_fields r)\<rparr>))"
  unfolding compare_step_def in_first_def in_second_def has_diffs_def in_both_def
    field_diffs_def node_ne_def node_truthy_def Let_def
  by (auto split: option.splits)

lemma step_fails_eq:
  "step_fails A B k \<longleftrightarrow>
     \<not> in_first A B k \<and> \<not> in_second A B k \<and> (map_of A k = None \<or> map_of B k = None)"
  unfolding step_fails_def in_both_def in_first_def in_second_def by auto

lemma compare_step_Inr:
  "\<not> step_fails A B k \<Longrightarrow> \<exists>r'. compare_step k A B r = Inr r'"
  unfolding compare_step_eq step_fails_eq by auto

lemma compare_loop_Inl:
  "\<exists>k \<in> set ks. step_fails A B k \<Longrightarrow> \<exists>e. compare_loop ks A B r = Inl e"
proof (induction ks arbitrary: r)
  case Nil
  then show ?case by simp
next
  case (Cons k ks)
  show ?case
  proof (cases "compare_step k A B r")
    case (Inl e)
    then show ?thesis by simp
  next
    case (Inr r')
    then have "\<not> step_fails A B k"
      unfolding compare_step_eq step_fails_eq by (auto split: if_splits)
    with Cons.prems have "\<exists>k \<in> set ks. step_fails A B k" by simp
    from Cons.IH [OF this] Inr show ?thesis by simp
  qed
qed

lemma compare_loop_closed:
  "\<forall>k \<in> set ks. \<not> step_fails A B k \<Longrightarrow> distinct ks \<Longrightarrow>
   set ks \<inter> fst ` set (differing_fields r) = {} \<Longrightarrow>
   compare_loop ks A B r =
     Inr \<lparr>only_in_first_file =
            only_in_first_file r @
              map (\<lambda>k. summary_record k (the (map_of A k))) (filter (in_first A B) ks),
          only_in_second_file =
            only_in_second_file r @
              map (\<lambda>k. summary_record k (the (map_of B k))) (filter (in_second A B) ks),
          present_in_both =
            present_in_both r @
              map (\<lambda>k. summary_record k (the (map_of A k))) (filter (in_both A B) ks),
          differing_fields =
            differing_fields r @
              map (\<lambda>k. (k, field_diffs (the (map_of A k)) (the (map_of B k))))
                (filter (has_diffs A B) ks)\<rparr>"
proof (induction ks arbitrary: r)
  case Nil
  then show ?case by simp
next
  case (Cons k ks)
  from Cons.prems have nf: "\<not> step_fails A B k" and fresh: "k \<notin> fst ` set (differing_fields r)"
    by auto
  from compare_step_Inr [OF nf] obtain r' where step: "compare_step k A B r = Inr r'"
    by blast
  have keys: "fst ` set (differing_fields r') \<subseteq> insert k (fst ` set (differing_fields r))"
  proof -
    from step have "differing_fields r' = differing_fields r \<or>
        (\<exists>d. differing_fields r' = dict_set (differing_fields r) k d)"
      unfolding compare_step_eq by (auto split: if_splits)
    then show ?thesis
      by (elim disjE exE) (simp_all only: keys_dict_set, auto)
  qed
  moreover from Cons.prems have "set ks \<inter> insert k (fst ` set (differing_fields r)) = {}"
    by auto
  ultimately have "set ks \<inter> fst ` set (differing_fields r') = {}" by blast
  with Cons.prems have loop: "compare_loop ks A B r' = Inr \<lparr>only_in_first_file =
            only_in_first_file r' @
              map (\<lambda>k. summary_record k (the (map_of A k))) (filter (in_first A B) ks),
          only_in_second_file =
            only_in_second_file r' @
              map (\<lambda>k. summary_record k (the (map_of B k))) (filter (in_second A B) ks),
          present_in_both =
            present_in_both r' @
              map (\<lambda>k. summary_record k (the (map_of A k))) (filter (in_both A B) ks),
          differing_fields =
            differing_fields r' @
              map (\<lambda>k. (k, field_diffs (the (map_of A k)) (the (map_of B k))))
                (filter (has_diffs A B) ks)\<rparr>"
    by (intro Cons.IH) auto
  have excl: "in_first A B k \<Longrightarrow> \<not> in_second A B k \<and> \<not> in_both A B k \<and> \<not> has_diffs A B k"
    "in_second A B k \<Longrightarrow> \<not> in_first A B k \<and> \<not> in_both A B k \<and> \<not> has_diffs A B k"
    "\<not> in_first A B k \<Longrightarrow> \<not> in_second A B k \<Longrightarrow> in_both A B k"
    unfolding in_first_def in_second_def in_both_def has_diffs_def by auto
  have "compare_loop (k # ks) A B r = compare_loop ks A B r'"
    using step by simp
  then show ?case
    using step [unfolded compare_step_eq] loop fresh excl
    by (auto split: if_splits simp: dict_set_fresh)
qed

section \<open>The result of \<^verbatim>\<open>compare_nodes\<close> in closed form\<close>

lemma set_node_ids: "set (node_ids A B) = set (map fst A) \<union> set (map fst B)"
  by (simp add: node_ids_def)

lemma distinct_node_ids: "distinct (node_ids A B)"
  by (simp add: node_ids_def)

lemma sorted_node_ids: "sorted (node_ids A B)"
  by (simp add: node_ids_def)

lemma strict_sorted_node_ids: "sorted_wrt (<) (node_ids A B)"
  by (simp add: strict_sorted_iff sorted_node_ids distinct_node_ids)

lemma node_ids_commute: "node_ids B A = node_ids A B"
  by (simp add: node_ids_def Un_commute)

lemma key_in_node_ids:
  "map_of A k = Some a \<Longrightarrow> k \<in> set (node_ids A B)"
  "map_of B k = Some b \<Longrightarrow> k \<in> set (node_ids A B)"
  unfolding set_node_ids by (auto dest!: map_of_SomeD intro: rev_image_eqI)

lemma compare_nodes_ok:
  assumes "\<forall>k \<in> set (node_ids A B). \<not> step_fails A B k"
  shows "compare_nodes A B = Inr (closed_results A B)"
  unfolding compare_nodes_def Let_def node_ids_def [symmetric] closed_results_def
  by (subst compare_loop_closed [OF assms distinct_node_ids]) simp_all

lemma compare_nodes_fail:
  assumes "\<exists>k \<in> set (node_ids A B). step_fails A B k"
  shows "\<exists>e. compare_nodes A B = Inl e"
  unfolding compare_nodes_def Let_def node_ids_def [symmetric]
  by (rule compare_loop_Inl [OF assms])

lemma compare_nodes_InrD:
  assumes "compare_nodes A B = Inr r"
  shows "\<forall>k \<in> set (node_ids A B). \<not> step_fails A B k" and "r = closed_results A B"
proof -
  show ok: "\<forall>k \<in> set (node_ids A B). \<not> step_fails A B k"
  proof (rule ccontr)
    assume "\<not> ?thesis"
    then have "\<exists>k \<in> set (node_ids A B). step_fails A B k" by blast
    from compare_nodes_fail [OF this] assms show False by auto
  qed
  from compare_nodes_ok [OF ok] assms show "r = closed_results A B" by simp
qed

lemma nonempty_no_step_fails:
  assumes "\<forall>k a. map_of A k = Some a \<longrightarrow> a \<noteq> []" "\<forall>k b. map_of B k = Some b \<longrightarrow> b \<noteq> []"
  shows "\<forall>k \<in> set (node_ids A B). \<not> step_fails A B k"
proof
  fix k assume "k \<in> set (node_ids A B)"
  then have "map_of A k \<noteq> None \<or> map_of B k \<noteq> None"
    unfolding set_node_ids by (auto simp: map_of_eq_None_iff)
  with assms show "\<not> step_fails A B k"
    unfolding step_fails_def in_both_def node_truthy_def
    by (auto split: option.splits)
qed

lemma nodeid_summary_record: "nodeid (summary_record k n) = k"
  by (simp add: summary_record_def)

lemma ids_closed_results:
  "map nodeid (only_in_first_file (closed_results A B)) = filter (in_first A B) (node_ids A B)"
  "map nodeid (only_in_second_file (closed_results A B)) = filter (in_second A B) (node_ids A B)"
  "map nodeid (present_in_both (closed_results A B)) = filter (in_both A B) (node_ids A B)"
  "map fst (differing_fields (closed_results A B)) = filter (has_diffs A B) (node_ids A B)"
  by (simp_all add: closed_results_def comp_def nodeid_summary_record)

lemma in_closed_results:
  "k \<in> set (node_ids A B) \<Longrightarrow> in_first A B k \<Longrightarrow> map_of A k = Some a \<Longrightarrow>
     summary_record k a \<in> set (only_in_first_file (closed_results A B))"
  "k \<in> set (node_ids A B) \<Longrightarrow> in_second A B k \<Longrightarrow> map_of B k = Some b \<Longrightarrow>
     summary_record k b \<in> set (only_in_second_file (closed_results A B))"
  "k \<in> set (node_ids A B) \<Longrightarrow> in_both A B k \<Longrightarrow> map_of A k = Some a \<Longrightarrow>
     summary_record k a \<in> set (present_in_both (closed_results A B))"
  unfolding closed_results_def by force+

lemma map_of_differing_fields:
  "map_of (differing_fields (closed_results A B)) k =
     (if k \<in> set (node_ids A B) \<and> has_diffs A B k
      then Some (field_diffs (the (map_of A k)) (the (map_of B k))) else None)"
  unfolding closed_results_def by (simp add: map_of_map_filter)

lemma in_cases:
  "in_first A B k \<Longrightarrow> \<not> in_second A B k"
  "in_first A B k \<Longrightarrow> \<not> in_both A B k"
  "in_second A B k \<Longrightarrow> \<not> in_both A B k"
  "in_first A B k \<or> in_second A B k \<or> in_both A B k"
  unfolding in_first_def in_second_def in_both_def by auto

lemma in_swap:
  "in_first B A k = in_second A B k"
  "in_second B A k = in_first A B k"
  "in_both B A k = in_both A B k"
  "step_fails B A k = step_fails A B k"
  unfolding in_first_def in_second_def in_both_def step_fails_def by auto

lemma has_diffs_swap: "has_diffs B A k = has_diffs A B k"
proof -
  have "in_both B A k = in_both A B k" by (rule in_swap)
  moreover have "(\<not> dict_eq b a \<and> field_diffs b a \<noteq> []) = (\<not> dict_eq a b \<and> field_diffs a b \<noteq> [])"
    for a b
    using dict_eq_sym [of a b] field_diffs_swap_empty [of b a] by simp
  ultimately show ?thesis
    unfolding has_diffs_def by (simp split: option.splits)
qed

lemma has_diffs_iff:
  assumes "map_of A k = Some a" "map_of B k = Some b" "a = [] \<longleftrightarrow> b = []"
  shows "has_diffs A B k \<longleftrightarrow>
           \<not> dict_eq a b \<and> (\<exists>f. \<not> py_eq (dict_get a f JNull) (dict_get b f JNull))"
proof -
  from assms have "in_both A B k" unfolding in_both_def node_truthy_def by simp
  with assms show ?thesis
    unfolding has_diffs_def by (simp add: field_diffs_empty_iff)
qed

lemma field_differs_dict_ne:
  assumes "\<not> py_eq (dict_get a f JNull) (dict_get b f JNull)"
    and "\<not> (dict_get a f JNull = JFloat NaN \<and> dict_get b f JNull = JFloat NaN)"
  shows "\<not> dict_eq a b"
  using assms dict_eq_get [of a b f] by (auto simp: py_same_def)

section \<open>The extraction in closed form\<close>

lemma scan_nodes_append:
  "scan_nodes (xs @ ys) idx = scan_nodes ys (scan_nodes xs idx)"
  by (induction xs arbitrary: idx) (auto simp: Let_def split: json.splits)

lemma scan_graphs_flat:
  "scan_graphs gs idx = scan_nodes (concat (map spec_graph_nodes gs)) idx"
proof (induction gs arbitrary: idx)
  case Nil
  then show ?case by simp
next
  case (Cons g gs)
  show ?case
    by (cases g)
      (auto simp: Cons spec_graph_nodes_def scan_nodes_append dict_get_def
         split: option.splits json.splits)
qed

lemma map_of_scan_nodes:
  "map_of (scan_nodes ns idx) k =
     (case filter (\<lambda>n. spec_node_key n = Some k) ns of
        [] \<Rightarrow> map_of idx k
      | m # ms \<Rightarrow> spec_node_fields (last (m # ms)))"
proof (induction ns arbitrary: idx)
  case Nil
  then show ?case by simp
next
  case (Cons n ns)
  let ?P = "\<lambda>n. spec_node_key n = Some k"
  show ?case
  proof (cases "spec_node_key n")
    case None
    then have "scan_nodes (n # ns) idx = scan_nodes ns idx"
      by (auto simp: spec_node_key_def dict_get_def Let_def split: json.splits option.splits if_splits)
    with None Cons show ?thesis by simp
  next
    case (Some k')
    then obtain f where n: "n = JObj f"
      and step: "scan_nodes (n # ns) idx = scan_nodes ns (dict_set idx k' f)"
      by (auto simp: spec_node_key_def dict_get_def Let_def split: json.splits option.splits if_splits)
    show ?thesis
    proof (cases "k' = k")
      case True
      with Some n show ?thesis
        unfolding step Cons
        by (auto simp: map_of_dict_set spec_node_fields_def split: list.splits)
    next
      case False
      with Some show ?thesis
        unfolding step Cons by (simp add: map_of_dict_set split: list.splits)
    qed
  qed
qed

lemma load_nodes_by_id_flat:
  "load_nodes_by_id (JObj d) = Inr (scan_nodes (spec_node_entries d) [])"
  unfolding load_nodes_by_id_def spec_node_entries_def spec_graph_entries_def scan_graphs_flat
  by (auto simp: dict_get_def Let_def split: option.splits json.splits)

lemma load_nodes_by_id_nonempty:
  assumes "load_nodes_by_id data = Inr idx" "map_of idx k = Some a"
  shows "a \<noteq> []"
proof -
  from assms(1) obtain d where d: "data = JObj d"
    by (cases data) (simp_all add: load_nodes_by_id_def)
  with assms(1) have idx: "idx = scan_nodes (spec_node_entries d) []"
    by (simp add: load_nodes_by_id_flat)
  let ?ms = "filter (\<lambda>n. spec_node_key n = Some k) (spec_node_entries d)"
  from assms(2) have ne: "?ms \<noteq> []" and f: "spec_node_fields (last ?ms) = Some a"
    unfolding idx map_of_scan_nodes by (auto split: list.splits)
  from ne have "last ?ms \<in> set ?ms" by (rule last_in_set)
  then have "spec_node_key (last ?ms) = Some k" by simp
  with f show ?thesis
    by (auto simp: spec_node_key_def spec_node_fields_def split: json.splits option.splits)
qed

section \<open>Properties of the extraction\<close>

text \<open>
  C3 (as amended).  For a document that is a mapping, \<^verbatim>\<open>load_nodes_by_id\<close> returns an index in
  which a key maps to the record of the last node entry of the document that is indexed
  under that key, and to nothing when there is no such entry.  A node entry is indexed
  exactly when it is a mapping whose \<^verbatim>\<open>nodeid\<close> is present and true in Python's sense (not
  \<^verbatim>\<open>None\<close>, \<^verbatim>\<open>False\<close>, an integer or float zero, nor an empty string, list or mapping), and its key is then the string
  coercion of that \<^verbatim>\<open>nodeid\<close>.
\<close>

theorem load_nodes_by_id_index:
  "(\<exists>idx. load_nodes_by_id (JObj d) = Inr idx \<and> (\<forall>k. map_of idx k = spec_index d k)) \<and>
   (\<forall>n k. spec_node_key n = Some k \<longleftrightarrow>
      (\<exists>f v. n = JObj f \<and> map_of f ''nodeid'' = Some v \<and> py_truthy v \<and> k = py_str v)) \<and>
   (\<forall>v. py_truthy v \<longleftrightarrow>
      v \<noteq> JNull \<and> v \<noteq> JBool False \<and> v \<noteq> JInt 0 \<and> (\<forall>s. v \<noteq> JFloat (Finite 0 s)) \<and>
      v \<noteq> JStr [] \<and> v \<noteq> JArr [] \<and> v \<noteq> JObj [])"
proof (intro conjI allI)
  have "\<forall>k. map_of (scan_nodes (spec_node_entries d) []) k = spec_index d k"
    unfolding map_of_scan_nodes spec_index_def by (simp split: list.splits)
  with load_nodes_by_id_flat [of d]
  show "\<exists>idx. load_nodes_by_id (JObj d) = Inr idx \<and> (\<forall>k. map_of idx k = spec_index d k)"
    by blast
next
  fix n k
  show "spec_node_key n = Some k \<longleftrightarrow>
      (\<exists>f v. n = JObj f \<and> map_of f ''nodeid'' = Some v \<and> py_truthy v \<and> k = py_str v)"
    unfolding spec_node_key_def by (cases n) (auto split: option.splits)
next
  fix v
  show "py_truthy v \<longleftrightarrow>
      v \<noteq> JNull \<and> v \<noteq> JBool False \<and> v \<noteq> JInt 0 \<and> (\<forall>s. v \<noteq> JFloat (Finite 0 s)) \<and>
      v \<noteq> JStr [] \<and> v \<noteq> JArr [] \<and> v \<noteq> JObj []"
    by (cases v) (auto split: pyfloat.splits)
qed

theorem load_nodes_by_id_index_witness:
  "load_nodes_by_id
     (JObj [(''graph'', JObj [(''nodes'', JArr
        [JObj [(''nodeid'', JStr ''a''), (''v'', JInt 1)], JInt 3, JObj [(''nodeid'', JInt 0)],
         JObj [(''nodeid'', JStr ''a''), (''v'', JInt 2)], JObj [(''nodeid'', JInt 7)]])])])
   = Inr [(''a'', [(''nodeid'', JStr ''a''), (''v'', JInt 2)]), (''7'', [(''nodeid'', JInt 7)])]
   \<and> spec_index
       [(''graph'', JObj [(''nodes'', JArr
        [JObj [(''nodeid'', JStr ''a''), (''v'', JInt 1)], JInt 3, JObj [(''nodeid'', JInt 0)],
         JObj [(''nodeid'', JStr ''a''), (''v'', JInt 2)], JObj [(''nodeid'', JInt 7)]])])] ''a''
     = Some [(''nodeid'', JStr ''a''), (''v'', JInt 2)]
   \<and> spec_index
       [(''graph'', JObj [(''nodes'', JArr
        [JObj [(''nodeid'', JStr ''a''), (''v'', JInt 1)], JInt 3, JObj [(''nodeid'', JInt 0)],
         JObj [(''nodeid'', JStr ''a''), (''v'', JInt 2)], JObj [(''nodeid'', JInt 7)]])])] ''0''
     = None"
proof -
  have e: "load_nodes_by_id
     (JObj [(''graph'', JObj [(''nodes'', JArr
        [JObj [(''nodeid'', JStr ''a''), (''v'', JInt 1)], JInt 3, JObj [(''nodeid'', JInt 0)],
         JObj [(''nodeid'', JStr ''a''), (''v'', JInt 2)], JObj [(''nodeid'', JInt 7)]])])])
   = Inr [(''a'', [(''nodeid'', JStr ''a''), (''v'', JInt 2)]), (''7'', [(''nodeid'', JInt 7)])]"
    (is "load_nodes_by_id (JObj ?d) = Inr ?idx")
    by code_simp
  from load_nodes_by_id_index [of ?d, THEN conjunct1] obtain idx where
    l: "load_nodes_by_id (JObj ?d) = Inr idx" and m: "\<forall>k. map_of idx k = spec_index ?d k"
    by (elim exE conjE)
  from l e have "idx = ?idx" by simp
  with m have m': "\<And>k. spec_index ?d k = map_of ?idx k" by simp
  have "spec_index ?d ''a'' = Some [(''nodeid'', JStr ''a''), (''v'', JInt 2)]"
    and "spec_index ?d ''0'' = None"
    unfolding m' by simp_all
  with e show ?thesis by (intro conjI)
qed

theorem zero_nodeid_counterexample:
  "map_of [(''nodeid'', JInt 0)] ''nodeid'' = Some (JInt 0) \<and>
   JInt 0 \<noteq> JNull \<and> JInt 0 \<noteq> JStr [] \<and> JInt 0 \<noteq> JArr [] \<and> JInt 0 \<noteq> JObj [] \<and>
   load_nodes_by_id
     (JObj [(''graph'', JArr [JObj [(''nodes'', JArr [JObj [(''nodeid'', JInt 0)]])]])]) = Inr []"
proof (intro conjI)
  show "load_nodes_by_id
     (JObj [(''graph'', JArr [JObj [(''nodes'', JArr [JObj [(''nodeid'', JInt 0)]])]])]) = Inr []"
    by code_simp
qed simp_all

text \<open>
  C6.  On a document whose top level is not a mapping, here the empty list, \<^verbatim>\<open>data.get\<close>
  raises \<^verbatim>\<open>AttributeError\<close>; on every document whose top level is a mapping the function
  returns an index.
\<close>

theorem load_nodes_by_id_top_level:
  "load_nodes_by_id (JArr []) = Inl (AttributeError ''get'') \<and>
   (\<forall>d. \<exists>idx. load_nodes_by_id (JObj d) = Inr idx)"
  by (simp add: load_nodes_by_id_flat) (simp add: load_nodes_by_id_def)

text \<open>
  C7.  A document whose \<^verbatim>\<open>graph\<close> entry is a graph object and a document whose \<^verbatim>\<open>graph\<close>
  entry is the one-element list of that object give the same index, whatever else the two
  documents hold; a document with no \<^verbatim>\<open>graph\<close> entry gives the empty index.
\<close>

theorem graph_object_or_list:
  "(map_of d1 ''graph'' = Some (JObj g) \<and> map_of d2 ''graph'' = Some (JArr [JObj g]) \<longrightarrow>
      load_nodes_by_id (JObj d1) = load_nodes_by_id (JObj d2)) \<and>
   (map_of d ''graph'' = None \<longrightarrow> load_nodes_by_id (JObj d) = Inr [])"
  by (simp add: load_nodes_by_id_def dict_get_def)

theorem graph_object_or_list_witness:
  "load_nodes_by_id (JObj [(''graph'', JObj [(''nodes'', JArr [JObj [(''nodeid'', JStr ''a'')]])])])
   = load_nodes_by_id
       (JObj [(''v'', JInt 1), (''graph'', JArr [JObj [(''nodes'', JArr [JObj [(''nodeid'', JStr ''a'')]])]])])
   \<and> load_nodes_by_id (JObj [(''graph'', JObj [(''nodes'', JArr [JObj [(''nodeid'', JStr ''a'')]])])])
     = Inr [(''a'', [(''nodeid'', JStr ''a'')])]
   \<and> load_nodes_by_id (JObj [(''v'', JInt 1)]) = Inr []"
proof -
  let ?g = "[(''nodes'', JArr [JObj [(''nodeid'', JStr ''a'')]])]"
  have p: "map_of [(''graph'', JObj ?g)] ''graph'' = Some (JObj ?g) \<and>
           map_of [(''v'', JInt 1), (''graph'', JArr [JObj ?g])] ''graph'' = Some (JArr [JObj ?g])"
    by simp
  have q: "map_of [(''v'', JInt 1)] ''graph'' = None" by simp
  note a = graph_object_or_list [THEN conjunct1, rule_format, OF p]
  note b = graph_object_or_list [THEN conjunct2, rule_format, OF q]
  have c: "load_nodes_by_id (JObj [(''graph'', JObj ?g)]) = Inr [(''a'', [(''nodeid'', JStr ''a'')])]"
    by code_simp
  from a c b show ?thesis by (intro conjI)
qed

section \<open>Properties of the comparison\<close>

lemma partition_closed_results:
  "distinct (map nodeid (only_in_first_file (closed_results A B)) @
             map nodeid (only_in_second_file (closed_results A B)) @
             map nodeid (present_in_both (closed_results A B))) \<and>
   set (map nodeid (only_in_first_file (closed_results A B))) \<union>
   set (map nodeid (only_in_second_file (closed_results A B))) \<union>
   set (map nodeid (present_in_both (closed_results A B))) =
   set (map fst A) \<union> set (map fst B)"
  unfolding ids_closed_results
  using in_cases [of A B] distinct_node_ids [of A B] set_node_ids [of A B]
  by (auto simp: distinct_filter)

text \<open>
  C1.  For every pair of node indexes whose records are all non-empty, and so for every
  pair of indexes that \<^verbatim>\<open>load_nodes_by_id\<close> returns, \<^verbatim>\<open>compare_nodes\<close> returns a result, and in
  it the node identifiers of \<^verbatim>\<open>only_in_first_file\<close>, \<^verbatim>\<open>only_in_second_file\<close> and
  \<^verbatim>\<open>present_in_both\<close> are pairwise disjoint and free of duplicates (the concatenation of the
  three lists is distinct), and together they are exactly the keys of the two indexes.  The
  same holds of every result that \<^verbatim>\<open>compare_nodes\<close> returns on any pair of indexes.
\<close>

theorem compare_nodes_partition:
  "((\<forall>k a. map_of file_a_nodes k = Some a \<longrightarrow> a \<noteq> []) \<and>
    (\<forall>k b. map_of file_b_nodes k = Some b \<longrightarrow> b \<noteq> []) \<longrightarrow>
      (\<exists>res. compare_nodes file_a_nodes file_b_nodes = Inr res \<and>
          distinct (map nodeid (only_in_first_file res) @ map nodeid (only_in_second_file res)
            @ map nodeid (present_in_both res)) \<and>
          set (map nodeid (only_in_first_file res)) \<union> set (map nodeid (only_in_second_file res))
            \<union> set (map nodeid (present_in_both res)) =
          set (map fst file_a_nodes) \<union> set (map fst file_b_nodes))) \<and>
   (load_nodes_by_id data_a = Inr file_a_nodes \<and> load_nodes_by_id data_b = Inr file_b_nodes \<longrightarrow>
      (\<exists>res. compare_nodes file_a_nodes file_b_nodes = Inr res \<and>
          distinct (map nodeid (only_in_first_file res) @ map nodeid (only_in_second_file res)
            @ map nodeid (present_in_both res)) \<and>
          set (map nodeid (only_in_first_file res)) \<union> set (map nodeid (only_in_second_file res))
            \<union> set (map nodeid (present_in_both res)) =
          set (map fst file_a_nodes) \<union> set (map fst file_b_nodes))) \<and>
   (\<forall>res. compare_nodes file_a_nodes file_b_nodes = Inr res \<longrightarrow>
          distinct (map nodeid (only_in_first_file res) @ map nodeid (only_in_second_file res)
            @ map nodeid (present_in_both res)) \<and>
          set (map nodeid (only_in_first_file res)) \<union> set (map nodeid (only_in_second_file res))
            \<union> set (map nodeid (present_in_both res)) =
          set (map fst file_a_nodes) \<union> set (map fst file_b_nodes))"
proof -
  let ?A = file_a_nodes and ?B = file_b_nodes
  let ?P = "\<lambda>res.
          distinct (map nodeid (only_in_first_file res) @ map nodeid (only_in_second_file res)
            @ map nodeid (present_in_both res)) \<and>
          set (map nodeid (only_in_first_file res)) \<union> set (map nodeid (only_in_second_file res))
            \<union> set (map nodeid (present_in_both res)) =
          set (map fst file_a_nodes) \<union> set (map fst file_b_nodes)"
  have strong: "\<exists>res. compare_nodes ?A ?B = Inr res \<and> ?P res"
    if "\<forall>k a. map_of ?A k = Some a \<longrightarrow> a \<noteq> []" "\<forall>k b. map_of ?B k = Some b \<longrightarrow> b \<noteq> []"
  proof -
    have "compare_nodes ?A ?B = Inr (closed_results ?A ?B)"
      by (rule compare_nodes_ok [OF nonempty_no_step_fails [OF that]])
    moreover have "?P (closed_results ?A ?B)" by (rule partition_closed_results)
    ultimately show ?thesis by blast
  qed
  have pipeline: "\<exists>res. compare_nodes ?A ?B = Inr res \<and> ?P res"
    if "load_nodes_by_id data_a = Inr ?A" "load_nodes_by_id data_b = Inr ?B"
  proof (rule strong)
    show "\<forall>k a. map_of ?A k = Some a \<longrightarrow> a \<noteq> []"
      using load_nodes_by_id_nonempty [OF that(1)] by blast
    show "\<forall>k b. map_of ?B k = Some b \<longrightarrow> b \<noteq> []"
      using load_nodes_by_id_nonempty [OF that(2)] by blast
  qed
  have any: "?P res" if "compare_nodes ?A ?B = Inr res" for res
    unfolding compare_nodes_InrD(2) [OF that] by (rule partition_closed_results)
  from strong pipeline any show ?thesis by blast
qed

theorem compare_nodes_partition_witness:
  "compare_nodes
     [(''a'', [(''nodeid'', JStr ''a'')]), (''b'', [(''nodeid'', JStr ''b''), (''val'', JInt 5)])]
     [(''c'', [(''nodeid'', JStr ''c'')]), (''b'', [(''nodeid'', JStr ''b''), (''val'', JInt 7)])]
   = Inr \<lparr>only_in_first_file =
            [\<lparr>nodeid = ''a'', name = JStr ''Unknown'', nodegroup_id = ''NODE_GROUP_ID: Unknown''\<rparr>],
          only_in_second_file =
            [\<lparr>nodeid = ''c'', name = JStr ''Unknown'', nodegroup_id = ''NODE_GROUP_ID: Unknown''\<rparr>],
          present_in_both =
            [\<lparr>nodeid = ''b'', name = JStr ''Unknown'', nodegroup_id = ''NODE_GROUP_ID: Unknown''\<rparr>],
          differing_fields =
            [(''b'', [(''val'', \<lparr>first_file = JInt 5, second_file = JInt 7\<rparr>)])]\<rparr>
   \<and> distinct ([''a''] @ [''c''] @ [''b''])
   \<and> set [''a''] \<union> set [''c''] \<union> set [''b''] = set [''a'', ''b''] \<union> set [''c'', ''b'']"
proof -
  have e: "compare_nodes
     [(''a'', [(''nodeid'', JStr ''a'')]), (''b'', [(''nodeid'', JStr ''b''), (''val'', JInt 5)])]
     [(''c'', [(''nodeid'', JStr ''c'')]), (''b'', [(''nodeid'', JStr ''b''), (''val'', JInt 7)])]
   = Inr \<lparr>only_in_first_file =
            [\<lparr>nodeid = ''a'', name = JStr ''Unknown'', nodegroup_id = ''NODE_GROUP_ID: Unknown''\<rparr>],
          only_in_second_file =
            [\<lparr>nodeid = ''c'', name = JStr ''Unknown'', nodegroup_id = ''NODE_GROUP_ID: Unknown''\<rparr>],
          present_in_both =
            [\<lparr>nodeid = ''b'', name = JStr ''Unknown'', nodegroup_id = ''NODE_GROUP_ID: Unknown''\<rparr>],
          differing_fields =
            [(''b'', [(''val'', \<lparr>first_file = JInt 5, second_file = JInt 7\<rparr>)])]\<rparr>"
    (is "compare_nodes ?A ?B = Inr ?R")
    by code_simp
  have p: "(\<forall>k a. map_of ?A k = Some a \<longrightarrow> a \<noteq> []) \<and> (\<forall>k b. map_of ?B k = Some b \<longrightarrow> b \<noteq> [])"
    by (simp split: if_splits)
  note t = compare_nodes_partition
    [where file_a_nodes = ?A and file_b_nodes = ?B, THEN conjunct1, rule_format, OF p]
  from t obtain res where r: "compare_nodes ?A ?B = Inr res"
    and d: "distinct (map nodeid (only_in_first_file res) @ map nodeid (only_in_second_file res)
            @ map nodeid (present_in_both res))"
    and u: "set (map nodeid (only_in_first_file res)) \<union> set (map nodeid (only_in_second_file res))
            \<union> set (map nodeid (present_in_both res)) = set (map fst ?A) \<union> set (map fst ?B)"
    by (elim exE conjE)
  from r e have "res = ?R" by simp
  with d u e show ?thesis by simp
qed

text \<open>
  C2.  When \<^verbatim>\<open>compare_nodes a b\<close> returns, so does \<^verbatim>\<open>compare_nodes b a\<close>, with the two
  only-in lists exchanged, the same node identifiers in \<^verbatim>\<open>present_in_both\<close> (each record now
  built from the copy in \<^verbatim>\<open>b\<close>), the same entries in \<^verbatim>\<open>differing_fields\<close> with \<^verbatim>\<open>first_file\<close>
  and \<^verbatim>\<open>second_file\<close> exchanged, and the counts of \<^verbatim>\<open>main\<close> exchanged accordingly.
\<close>

theorem compare_nodes_swap:
  assumes "compare_nodes file_a_nodes file_b_nodes = Inr res"
  shows "\<exists>res'. compare_nodes file_b_nodes file_a_nodes = Inr res' \<and>
           only_in_first_file res' = only_in_second_file res \<and>
           only_in_second_file res' = only_in_first_file res \<and>
           map nodeid (present_in_both res') = map nodeid (present_in_both res) \<and>
           (\<forall>s \<in> set (present_in_both res').
              \<exists>b. map_of file_b_nodes (nodeid s) = Some b \<and> s = summary_record (nodeid s) b) \<and>
           differing_fields res' =
             map (\<lambda>(k, d).
                    (k, map (\<lambda>(f, v). (f, \<lparr>first_file = second_file v, second_file = first_file v\<rparr>)) d))
               (differing_fields res) \<and>
           main_summary file_b_nodes file_a_nodes res' =
             \<lparr>total_nodes_file1 = total_nodes_file2 (main_summary file_a_nodes file_b_nodes res),
              total_nodes_file2 = total_nodes_file1 (main_summary file_a_nodes file_b_nodes res),
              only_in_file1_count = only_in_file2_count (main_summary file_a_nodes file_b_nodes res),
              only_in_file2_count = only_in_file1_count (main_summary file_a_nodes file_b_nodes res),
              common_nodes_count = common_nodes_count (main_summary file_a_nodes file_b_nodes res),
              nodes_with_differences =
                nodes_with_differences (main_summary file_a_nodes file_b_nodes res)\<rparr>"
proof -
  let ?A = file_a_nodes and ?B = file_b_nodes
  from compare_nodes_InrD [OF assms]
  have ok: "\<forall>k \<in> set (node_ids ?A ?B). \<not> step_fails ?A ?B k"
    and r: "res = closed_results ?A ?B" by blast+
  from ok have ok': "\<forall>k \<in> set (node_ids ?B ?A). \<not> step_fails ?B ?A k"
    by (simp add: node_ids_commute [of ?A ?B] in_swap(4) [where A = ?A and B = ?B])
  let ?r' = "closed_results ?B ?A"
  have run: "compare_nodes ?B ?A = Inr ?r'" by (rule compare_nodes_ok [OF ok'])
  have f: "only_in_first_file ?r' = only_in_second_file res"
    and s: "only_in_second_file ?r' = only_in_first_file res"
    unfolding r closed_results_def node_ids_commute [of ?A ?B]
    by (simp_all add: in_swap(1,2) [where A = ?A and B = ?B, abs_def])
  have b: "map nodeid (present_in_both ?r') = map nodeid (present_in_both res)"
    unfolding r ids_closed_results node_ids_commute [of ?A ?B]
    by (simp add: in_swap(3) [where A = ?A and B = ?B, abs_def])
  have b2: "\<exists>b. map_of ?B (nodeid s) = Some b \<and> s = summary_record (nodeid s) b"
    if "s \<in> set (present_in_both ?r')" for s
  proof -
    from that obtain k where k: "k \<in> set (node_ids ?B ?A)" "in_both ?B ?A k"
      and s: "s = summary_record k (the (map_of ?B k))"
      unfolding closed_results_def by auto
    from ok' k have "map_of ?B k \<noteq> None" unfolding step_fails_def by auto
    with s show ?thesis by (auto simp: nodeid_summary_record)
  qed
  have d: "differing_fields ?r' =
             map (\<lambda>(k, d).
                    (k, map (\<lambda>(f, v). (f, \<lparr>first_file = second_file v, second_file = first_file v\<rparr>)) d))
               (differing_fields res)"
    unfolding r closed_results_def node_ids_commute [of ?A ?B]
    by (simp add: has_diffs_swap [where A = ?A and B = ?B, abs_def] comp_def
        field_diffs_swap [of "the (map_of ?B _)" "the (map_of ?A _)"])
  have m: "main_summary ?B ?A ?r' =
             \<lparr>total_nodes_file1 = total_nodes_file2 (main_summary ?A ?B res),
              total_nodes_file2 = total_nodes_file1 (main_summary ?A ?B res),
              only_in_file1_count = only_in_file2_count (main_summary ?A ?B res),
              only_in_file2_count = only_in_file1_count (main_summary ?A ?B res),
              common_nodes_count = common_nodes_count (main_summary ?A ?B res),
              nodes_with_differences = nodes_with_differences (main_summary ?A ?B res)\<rparr>"
  proof -
    from b have "length (present_in_both ?r') = length (present_in_both res)"
      by (metis length_map)
    then show ?thesis
      unfolding main_summary_def by (simp add: f s d)
  qed
  from run f s b b2 d m show ?thesis by blast
qed

theorem compare_nodes_swap_witness:
  "compare_nodes [(''a'', [(''x'', JInt 1)])] [(''a'', [(''x'', JInt 2)]), (''b'', [(''y'', JNull)])]
   = Inr \<lparr>only_in_first_file = [],
          only_in_second_file =
            [\<lparr>nodeid = ''b'', name = JStr ''Unknown'', nodegroup_id = ''NODE_GROUP_ID: Unknown''\<rparr>],
          present_in_both =
            [\<lparr>nodeid = ''a'', name = JStr ''Unknown'', nodegroup_id = ''NODE_GROUP_ID: Unknown''\<rparr>],
          differing_fields = [(''a'', [(''x'', \<lparr>first_file = JInt 1, second_file = JInt 2\<rparr>)])]\<rparr>
   \<and> (\<exists>res'. compare_nodes [(''a'', [(''x'', JInt 2)]), (''b'', [(''y'', JNull)])]
                [(''a'', [(''x'', JInt 1)])] = Inr res' \<and>
         only_in_first_file res' =
           [\<lparr>nodeid = ''b'', name = JStr ''Unknown'', nodegroup_id = ''NODE_GROUP_ID: Unknown''\<rparr>] \<and>
         only_in_second_file res' = [] \<and>
         map nodeid (present_in_both res') = [''a''] \<and>
         differing_fields res' = [(''a'', [(''x'', \<lparr>first_file = JInt 2, second_file = JInt 1\<rparr>)])])"
proof -
  have e: "compare_nodes [(''a'', [(''x'', JInt 1)])] [(''a'', [(''x'', JInt 2)]), (''b'', [(''y'', JNull)])]
   = Inr \<lparr>only_in_first_file = [],
          only_in_second_file =
            [\<lparr>nodeid = ''b'', name = JStr ''Unknown'', nodegroup_id = ''NODE_GROUP_ID: Unknown''\<rparr>],
          present_in_both =
            [\<lparr>nodeid = ''a'', name = JStr ''Unknown'', nodegroup_id = ''NODE_GROUP_ID: Unknown''\<rparr>],
          differing_fields = [(''a'', [(''x'', \<lparr>first_file = JInt 1, second_file = JInt 2\<rparr>)])]\<rparr>"
    (is "_ = Inr ?R")
    by code_simp
  from compare_nodes_swap [OF e] obtain res' where
    run: "compare_nodes [(''a'', [(''x'', JInt 2)]), (''b'', [(''y'', JNull)])]
                [(''a'', [(''x'', JInt 1)])] = Inr res'"
    and f: "only_in_first_file res' = only_in_second_file ?R"
    and s: "only_in_second_file res' = only_in_first_file ?R"
    and b: "map nodeid (present_in_both res') = map nodeid (present_in_both ?R)"
    and d: "differing_fields res' =
             map (\<lambda>(k, d).
                    (k, map (\<lambda>(f, v). (f, \<lparr>first_file = second_file v, second_file = first_file v\<rparr>)) d))
               (differing_fields ?R)"
    by (elim exE conjE)
  from f have f': "only_in_first_file res' =
           [\<lparr>nodeid = ''b'', name = JStr ''Unknown'', nodegroup_id = ''NODE_GROUP_ID: Unknown''\<rparr>]"
    by simp
  from s have s': "only_in_second_file res' = []" by simp
  from b have b': "map nodeid (present_in_both res') = [''a'']" by simp
  from d have d': "differing_fields res' =
      [(''a'', [(''x'', \<lparr>first_file = JInt 2, second_file = JInt 1\<rparr>)])]"
    by simp
  from run f' s' b' d' have "\<exists>res'. compare_nodes [(''a'', [(''x'', JInt 2)]), (''b'', [(''y'', JNull)])]
                [(''a'', [(''x'', JInt 1)])] = Inr res' \<and>
         only_in_first_file res' =
           [\<lparr>nodeid = ''b'', name = JStr ''Unknown'', nodegroup_id = ''NODE_GROUP_ID: Unknown''\<rparr>] \<and>
         only_in_second_file res' = [] \<and>
         map nodeid (present_in_both res') = [''a''] \<and>
         differing_fields res' = [(''a'', [(''x'', \<lparr>first_file = JInt 2, second_file = JInt 1\<rparr>)])]"
    by (intro exI [of _ res'] conjI)
  with e show ?thesis by (rule conjI)
qed

text \<open>
  C4.  \<^verbatim>\<open>compare_nodes\<close> is a function of its two arguments, so a result is the only result
  for these inputs; and in it the three lists are strictly ascending by \<^verbatim>\<open>nodeid\<close>, the keys
  of \<^verbatim>\<open>differing_fields\<close> are strictly ascending, and so are the field names inside each of
  its entries.  The order on strings is the lexicographic order by code point, which is the
  order of \<^verbatim>\<open>sorted\<close> on \<^verbatim>\<open>str\<close>.
\<close>

theorem compare_nodes_ordered:
  assumes "compare_nodes file_a_nodes file_b_nodes = Inr res"
  shows "sorted_wrt (<) (map nodeid (only_in_first_file res)) \<and>
         sorted_wrt (<) (map nodeid (only_in_second_file res)) \<and>
         sorted_wrt (<) (map nodeid (present_in_both res)) \<and>
         sorted_wrt (<) (map fst (differing_fields res)) \<and>
         (\<forall>d \<in> set (map snd (differing_fields res)). sorted_wrt (<) (map fst d)) \<and>
         (\<forall>res'. compare_nodes file_a_nodes file_b_nodes = Inr res' \<longrightarrow> res' = res)"
proof -
  from compare_nodes_InrD(2) [OF assms] have r: "res = closed_results file_a_nodes file_b_nodes" .
  have "\<forall>d \<in> set (map snd (differing_fields res)). sorted_wrt (<) (map fst d)"
    unfolding r closed_results_def by (auto simp: sorted_field_diffs)
  moreover have "\<forall>res'. compare_nodes file_a_nodes file_b_nodes = Inr res' \<longrightarrow> res' = res"
    using assms by simp
  ultimately show ?thesis
    unfolding r ids_closed_results
    using strict_sorted_node_ids [of file_a_nodes file_b_nodes]
    by (simp add: sorted_wrt_filter)
qed

theorem compare_nodes_ordered_witness:
  "compare_nodes
     [(''b'', [(''v'', JInt 1)]), (''a'', [(''v'', JInt 1)]), (''d'', [(''v'', JInt 1), (''u'', JInt 2)])]
     [(''d'', [(''v'', JInt 3), (''u'', JInt 4)]), (''c'', [(''v'', JInt 1)]), (''b'', [(''v'', JInt 2)])]
   = Inr \<lparr>only_in_first_file =
            [\<lparr>nodeid = ''a'', name = JStr ''Unknown'', nodegroup_id = ''NODE_GROUP_ID: Unknown''\<rparr>],
          only_in_second_file =
            [\<lparr>nodeid = ''c'', name = JStr ''Unknown'', nodegroup_id = ''NODE_GROUP_ID: Unknown''\<rparr>],
          present_in_both =
            [\<lparr>nodeid = ''b'', name = JStr ''Unknown'', nodegroup_id = ''NODE_GROUP_ID: Unknown''\<rparr>,
             \<lparr>nodeid = ''d'', name = JStr ''Unknown'', nodegroup_id = ''NODE_GROUP_ID: Unknown''\<rparr>],
          differing_fields =
            [(''b'', [(''v'', \<lparr>first_file = JInt 1, second_file = JInt 2\<rparr>)]),
             (''d'', [(''u'', \<lparr>first_file = JInt 2, second_file = JInt 4\<rparr>),
                      (''v'', \<lparr>first_file = JInt 1, second_file = JInt 3\<rparr>)])]\<rparr>
   \<and> sorted_wrt (<) [''b'', ''d''] \<and> sorted_wrt (<) [''u'', ''v'']"
proof -
  have e: "compare_nodes
     [(''b'', [(''v'', JInt 1)]), (''a'', [(''v'', JInt 1)]), (''d'', [(''v'', JInt 1), (''u'', JInt 2)])]
     [(''d'', [(''v'', JInt 3), (''u'', JInt 4)]), (''c'', [(''v'', JInt 1)]), (''b'', [(''v'', JInt 2)])]
   = Inr \<lparr>only_in_first_file =
            [\<lparr>nodeid = ''a'', name = JStr ''Unknown'', nodegroup_id = ''NODE_GROUP_ID: Unknown''\<rparr>],
          only_in_second_file =
            [\<lparr>nodeid = ''c'', name = JStr ''Unknown'', nodegroup_id = ''NODE_GROUP_ID: Unknown''\<rparr>],
          present_in_both =
            [\<lparr>nodeid = ''b'', name = JStr ''Unknown'', nodegroup_id = ''NODE_GROUP_ID: Unknown''\<rparr>,
             \<lparr>nodeid = ''d'', name = JStr ''Unknown'', nodegroup_id = ''NODE_GROUP_ID: Unknown''\<rparr>],
          differing_fields =
            [(''b'', [(''v'', \<lparr>first_file = JInt 1, second_file = JInt 2\<rparr>)]),
             (''d'', [(''u'', \<lparr>first_file = JInt 2, second_file = JInt 4\<rparr>),
                      (''v'', \<lparr>first_file = JInt 1, second_file = JInt 3\<rparr>)])]\<rparr>"
    by code_simp
  from compare_nodes_ordered [OF e] e show ?thesis by simp
qed

text \<open>
  C5 (as amended).  When \<^verbatim>\<open>compare_nodes\<close> returns: a node identifier that only the first
  index has is in \<^verbatim>\<open>only_in_first_file\<close> with the record of its node, one that only the second
  index has is in \<^verbatim>\<open>only_in_second_file\<close>, and one that both have, with both records empty
  or both non-empty, is in \<^verbatim>\<open>present_in_both\<close> with the record of the first index's node.
  The record has the fields \<^verbatim>\<open>nodeid\<close>, \<^verbatim>\<open>name\<close> and \<^verbatim>\<open>nodegroup_id\<close>; \<^verbatim>\<open>name\<close> is the node's
  \<^verbatim>\<open>name\<close>, or the string \<^verbatim>\<open>Unknown\<close> when the node has none; \<^verbatim>\<open>nodegroup_id\<close> is the text
  \<^verbatim>\<open>NODE_GROUP_ID: \<close> followed by the string coercion of the node's \<^verbatim>\<open>nodegroup_id\<close>, or by
  \<^verbatim>\<open>Unknown\<close> when the node has none.
\<close>

theorem compare_nodes_summary_records:
  assumes "compare_nodes file_a_nodes file_b_nodes = Inr res"
  shows "(\<forall>k a. map_of file_a_nodes k = Some a \<and> map_of file_b_nodes k = None \<longrightarrow>
            summary_record k a \<in> set (only_in_first_file res)) \<and>
         (\<forall>k b. map_of file_b_nodes k = Some b \<and> map_of file_a_nodes k = None \<longrightarrow>
            summary_record k b \<in> set (only_in_second_file res)) \<and>
         (\<forall>k a b. map_of file_a_nodes k = Some a \<and> map_of file_b_nodes k = Some b \<and>
                   (a = [] \<longleftrightarrow> b = []) \<longrightarrow>
            summary_record k a \<in> set (present_in_both res)) \<and>
         (\<forall>k n. nodeid (summary_record k n) = k \<and>
            name (summary_record k n) =
              (case map_of n ''name'' of None \<Rightarrow> JStr ''Unknown'' | Some v \<Rightarrow> v) \<and>
            nodegroup_id (summary_record k n) =
              (case map_of n ''nodegroup_id'' of
                 None \<Rightarrow> ''NODE_GROUP_ID: Unknown''
               | Some v \<Rightarrow> ''NODE_GROUP_ID: '' @ py_str v))"
proof -
  let ?A = file_a_nodes and ?B = file_b_nodes
  from compare_nodes_InrD [OF assms]
  have ok: "\<forall>k \<in> set (node_ids ?A ?B). \<not> step_fails ?A ?B k"
    and r: "res = closed_results ?A ?B" by blast+
  have 1: "summary_record k a \<in> set (only_in_first_file res)"
    if "map_of ?A k = Some a" "map_of ?B k = None" for k a
  proof -
    from that have k: "k \<in> set (node_ids ?A ?B)" by (simp add: key_in_node_ids)
    from ok k have "\<not> step_fails ?A ?B k" by blast
    with that have "in_first ?A ?B k"
      unfolding step_fails_def in_both_def in_first_def node_truthy_def by simp
    with k that show ?thesis unfolding r by (simp add: in_closed_results)
  qed
  have 2: "summary_record k b \<in> set (only_in_second_file res)"
    if "map_of ?B k = Some b" "map_of ?A k = None" for k b
  proof -
    from that have k: "k \<in> set (node_ids ?A ?B)" by (simp add: key_in_node_ids)
    from ok k have "\<not> step_fails ?A ?B k" by blast
    with that have "in_second ?A ?B k"
      unfolding step_fails_def in_both_def in_second_def node_truthy_def by simp
    with k that show ?thesis unfolding r by (simp add: in_closed_results)
  qed
  have 3: "summary_record k a \<in> set (present_in_both res)"
    if "map_of ?A k = Some a" "map_of ?B k = Some b" "a = [] \<longleftrightarrow> b = []" for k a b
  proof -
    from that have k: "k \<in> set (node_ids ?A ?B)" by (simp add: key_in_node_ids)
    from that have "in_both ?A ?B k"
      unfolding in_both_def node_truthy_def by simp
    with k that show ?thesis unfolding r by (simp add: in_closed_results)
  qed
  have 4: "nodeid (summary_record k n) = k \<and>
            name (summary_record k n) =
              (case map_of n ''name'' of None \<Rightarrow> JStr ''Unknown'' | Some v \<Rightarrow> v) \<and>
            nodegroup_id (summary_record k n) =
              (case map_of n ''nodegroup_id'' of
                 None \<Rightarrow> ''NODE_GROUP_ID: Unknown''
               | Some v \<Rightarrow> ''NODE_GROUP_ID: '' @ py_str v)" for k n
    by (simp add: summary_record_def dict_get_def split: option.splits)
  from 1 2 3 4 show ?thesis by blast
qed

theorem compare_nodes_summary_records_witness:
  "compare_nodes
     [(''a'', [(''nodeid'', JStr ''a''), (''name'', JStr ''N''), (''nodegroup_id'', JInt 7)])] []
   = Inr \<lparr>only_in_first_file =
            [\<lparr>nodeid = ''a'', name = JStr ''N'', nodegroup_id = ''NODE_GROUP_ID: 7''\<rparr>],
          only_in_second_file = [], present_in_both = [], differing_fields = []\<rparr>
   \<and> summary_record ''a'' [(''nodeid'', JStr ''a''), (''name'', JStr ''N''), (''nodegroup_id'', JInt 7)]
       \<in> set [\<lparr>nodeid = ''a'', name = JStr ''N'', nodegroup_id = ''NODE_GROUP_ID: 7''\<rparr>]"
proof -
  have e: "compare_nodes
     [(''a'', [(''nodeid'', JStr ''a''), (''name'', JStr ''N''), (''nodegroup_id'', JInt 7)])] []
   = Inr \<lparr>only_in_first_file =
            [\<lparr>nodeid = ''a'', name = JStr ''N'', nodegroup_id = ''NODE_GROUP_ID: 7''\<rparr>],
          only_in_second_file = [], present_in_both = [], differing_fields = []\<rparr>"
    (is "compare_nodes ?A ?B = Inr ?R")
    by code_simp
  have p: "map_of ?A ''a'' = Some [(''nodeid'', JStr ''a''), (''name'', JStr ''N''), (''nodegroup_id'', JInt 7)]
           \<and> map_of ?B ''a'' = None"
    by simp
  note c = compare_nodes_summary_records [OF e, THEN conjunct1, rule_format, OF p]
  then have "summary_record ''a'' [(''nodeid'', JStr ''a''), (''name'', JStr ''N''), (''nodegroup_id'', JInt 7)]
       \<in> set [\<lparr>nodeid = ''a'', name = JStr ''N'', nodegroup_id = ''NODE_GROUP_ID: 7''\<rparr>]"
    by (simp only: results.simps)
  with e show ?thesis by (rule conjI)
qed

theorem nodegroup_default_counterexample:
  "compare_nodes [(''a'', [(''nodeid'', JStr ''a'')])] []
   = Inr \<lparr>only_in_first_file =
            [\<lparr>nodeid = ''a'', name = JStr ''Unknown'', nodegroup_id = ''NODE_GROUP_ID: Unknown''\<rparr>],
          only_in_second_file = [], present_in_both = [], differing_fields = []\<rparr>
   \<and> map_of [(''nodeid'', JStr ''a'')] ''nodegroup_id'' = None
   \<and> ''NODE_GROUP_ID: Unknown'' \<noteq> ''Unknown''"
proof (intro conjI)
  show "compare_nodes [(''a'', [(''nodeid'', JStr ''a'')])] []
   = Inr \<lparr>only_in_first_file =
            [\<lparr>nodeid = ''a'', name = JStr ''Unknown'', nodegroup_id = ''NODE_GROUP_ID: Unknown''\<rparr>],
          only_in_second_file = [], present_in_both = [], differing_fields = []\<rparr>"
    by code_simp
  show "map_of [(''nodeid'', JStr ''a'')] ''nodegroup_id'' = None" by simp
  show "''NODE_GROUP_ID: Unknown'' \<noteq> ''Unknown''" by simp
qed



text \<open>
  C9 (as amended).  For the two indexes of the specification's example, \<^verbatim>\<open>differing_fields\<close>
  maps \<^verbatim>\<open>1\<close> to the single entry \<^verbatim>\<open>val\<close> with the values 5 and 7, and has no entry for
  \<^verbatim>\<open>name\<close>.  In general, on indexes whose records are all non-empty \<^verbatim>\<open>compare_nodes\<close> returns,
  and for a node identifier with a record in both indexes: the identifier is a key of
  \<^verbatim>\<open>differing_fields\<close> exactly when the two records are unequal under Python's \<^verbatim>\<open>==\<close> as whole
  dictionaries and some field has values that are unequal under \<^verbatim>\<open>==\<close> (a missing field reads
  as \<^verbatim>\<open>None\<close> on either side); when no field is NaN on both sides, the second condition alone
  decides; and the entry of the identifier holds exactly the fields whose values are unequal
  under \<^verbatim>\<open>==\<close>, each with the value of the first and of the second side.
\<close>

theorem differing_fields_correct:
  "compare_nodes
     [(''1'', [(''nodeid'', JStr ''1''), (''name'', JStr ''X''), (''val'', JInt 5)])]
     [(''1'', [(''nodeid'', JStr ''1''), (''name'', JStr ''X''), (''val'', JInt 7)])]
   = Inr \<lparr>only_in_first_file = [], only_in_second_file = [],
          present_in_both =
            [\<lparr>nodeid = ''1'', name = JStr ''X'', nodegroup_id = ''NODE_GROUP_ID: Unknown''\<rparr>],
          differing_fields =
            [(''1'', [(''val'', \<lparr>first_file = JInt 5, second_file = JInt 7\<rparr>)])]\<rparr>
   \<and> (\<forall>file_a_nodes file_b_nodes.
        (\<forall>k a. map_of file_a_nodes k = Some a \<longrightarrow> a \<noteq> []) \<and>
        (\<forall>k b. map_of file_b_nodes k = Some b \<longrightarrow> b \<noteq> []) \<longrightarrow>
        (\<exists>res. compare_nodes file_a_nodes file_b_nodes = Inr res \<and>
           (\<forall>k a b. map_of file_a_nodes k = Some a \<and> map_of file_b_nodes k = Some b \<longrightarrow>
              (k \<in> set (map fst (differing_fields res)) \<longleftrightarrow>
                 \<not> dict_eq a b \<and> (\<exists>f. \<not> py_eq (dict_get a f JNull) (dict_get b f JNull))) \<and>
              ((\<forall>f. \<not> (dict_get a f JNull = JFloat NaN \<and> dict_get b f JNull = JFloat NaN)) \<longrightarrow>
                 (k \<in> set (map fst (differing_fields res)) \<longleftrightarrow>
                    (\<exists>f. \<not> py_eq (dict_get a f JNull) (dict_get b f JNull)))) \<and>
              (\<forall>d. map_of (differing_fields res) k = Some d \<longrightarrow>
                 (\<forall>f. map_of d f =
                    (if \<not> py_eq (dict_get a f JNull) (dict_get b f JNull)
                     then Some \<lparr>first_file = dict_get a f JNull, second_file = dict_get b f JNull\<rparr>
                     else None))))))"
proof (intro conjI allI impI)
  show "compare_nodes
     [(''1'', [(''nodeid'', JStr ''1''), (''name'', JStr ''X''), (''val'', JInt 5)])]
     [(''1'', [(''nodeid'', JStr ''1''), (''name'', JStr ''X''), (''val'', JInt 7)])]
   = Inr \<lparr>only_in_first_file = [], only_in_second_file = [],
          present_in_both =
            [\<lparr>nodeid = ''1'', name = JStr ''X'', nodegroup_id = ''NODE_GROUP_ID: Unknown''\<rparr>],
          differing_fields =
            [(''1'', [(''val'', \<lparr>first_file = JInt 5, second_file = JInt 7\<rparr>)])]\<rparr>"
    by code_simp
next
  fix A B :: node_index
  assume "(\<forall>k a. map_of A k = Some a \<longrightarrow> a \<noteq> []) \<and> (\<forall>k b. map_of B k = Some b \<longrightarrow> b \<noteq> [])"
  then have ne: "\<forall>k a. map_of A k = Some a \<longrightarrow> a \<noteq> []" "\<forall>k b. map_of B k = Some b \<longrightarrow> b \<noteq> []"
    by blast+
  let ?res = "closed_results A B"
  have run: "compare_nodes A B = Inr ?res"
    by (rule compare_nodes_ok [OF nonempty_no_step_fails [OF ne]])
  have main: "(k \<in> set (map fst (differing_fields ?res)) \<longleftrightarrow>
                 \<not> dict_eq a b \<and> (\<exists>f. \<not> py_eq (dict_get a f JNull) (dict_get b f JNull))) \<and>
              ((\<forall>f. \<not> (dict_get a f JNull = JFloat NaN \<and> dict_get b f JNull = JFloat NaN)) \<longrightarrow>
                 (k \<in> set (map fst (differing_fields ?res)) \<longleftrightarrow>
                    (\<exists>f. \<not> py_eq (dict_get a f JNull) (dict_get b f JNull)))) \<and>
              (\<forall>d. map_of (differing_fields ?res) k = Some d \<longrightarrow>
                 (\<forall>f. map_of d f =
                    (if \<not> py_eq (dict_get a f JNull) (dict_get b f JNull)
                     then Some \<lparr>first_file = dict_get a f JNull, second_file = dict_get b f JNull\<rparr>
                     else None)))"
    if ab: "map_of A k = Some a \<and> map_of B k = Some b" for k a b
  proof -
    from ab have a: "map_of A k = Some a" and b: "map_of B k = Some b" by blast+
    from ne a b have "a \<noteq> []" "b \<noteq> []" by blast+
    then have e: "(a = []) = (b = [])" by simp
    from a have k: "k \<in> set (node_ids A B)" by (rule key_in_node_ids)
    have 1: "k \<in> set (map fst (differing_fields ?res)) \<longleftrightarrow>
                 \<not> dict_eq a b \<and> (\<exists>f. \<not> py_eq (dict_get a f JNull) (dict_get b f JNull))"
      unfolding ids_closed_results using k has_diffs_iff [OF a b e] by simp
    have 2: "k \<in> set (map fst (differing_fields ?res)) \<longleftrightarrow>
                    (\<exists>f. \<not> py_eq (dict_get a f JNull) (dict_get b f JNull))"
      if "\<forall>f. \<not> (dict_get a f JNull = JFloat NaN \<and> dict_get b f JNull = JFloat NaN)"
      unfolding 1 using that field_differs_dict_ne [of a _ b] by blast
    have 3: "map_of d f =
                    (if \<not> py_eq (dict_get a f JNull) (dict_get b f JNull)
                     then Some \<lparr>first_file = dict_get a f JNull, second_file = dict_get b f JNull\<rparr>
                     else None)"
      if "map_of (differing_fields ?res) k = Some d" for d f
    proof -
      from that a b have "d = field_diffs a b"
        unfolding map_of_differing_fields by (simp split: if_splits)
      then show ?thesis by (simp add: map_of_field_diffs)
    qed
    from 1 2 3 show ?thesis by blast
  qed
  from run main show "\<exists>res. compare_nodes A B = Inr res \<and>
           (\<forall>k a b. map_of A k = Some a \<and> map_of B k = Some b \<longrightarrow>
              (k \<in> set (map fst (differing_fields res)) \<longleftrightarrow>
                 \<not> dict_eq a b \<and> (\<exists>f. \<not> py_eq (dict_get a f JNull) (dict_get b f JNull))) \<and>
              ((\<forall>f. \<not> (dict_get a f JNull = JFloat NaN \<and> dict_get b f JNull = JFloat NaN)) \<longrightarrow>
                 (k \<in> set (map fst (differing_fields res)) \<longleftrightarrow>
                    (\<exists>f. \<not> py_eq (dict_get a f JNull) (dict_get b f JNull)))) \<and>
              (\<forall>d. map_of (differing_fields res) k = Some d \<longrightarrow>
                 (\<forall>f. map_of d f =
                    (if \<not> py_eq (dict_get a f JNull) (dict_get b f JNull)
                     then Some \<lparr>first_file = dict_get a f JNull, second_file = dict_get b f JNull\<rparr>
                     else None))))"
    by blast
qed

theorem differing_fields_correct_witness:
  "compare_nodes
     [(''1'', [(''nodeid'', JStr ''1''), (''v'', JFloat NaN)])]
     [(''1'', [(''nodeid'', JStr ''1''), (''v'', JFloat NaN)])]
   = Inr \<lparr>only_in_first_file = [], only_in_second_file = [],
          present_in_both =
            [\<lparr>nodeid = ''1'', name = JStr ''Unknown'', nodegroup_id = ''NODE_GROUP_ID: Unknown''\<rparr>],
          differing_fields = []\<rparr>
   \<and> \<not> py_eq (dict_get [(''nodeid'', JStr ''1''), (''v'', JFloat NaN)] ''v'' JNull)
             (dict_get [(''nodeid'', JStr ''1''), (''v'', JFloat NaN)] ''v'' JNull)
   \<and> dict_eq [(''nodeid'', JStr ''1''), (''v'', JFloat NaN)]
             [(''nodeid'', JStr ''1''), (''v'', JFloat NaN)]"
proof -
  let ?a = "[(''nodeid'', JStr ''1''), (''v'', JFloat NaN)]"
  have e: "compare_nodes [(''1'', ?a)] [(''1'', ?a)]
   = Inr \<lparr>only_in_first_file = [], only_in_second_file = [],
          present_in_both =
            [\<lparr>nodeid = ''1'', name = JStr ''Unknown'', nodegroup_id = ''NODE_GROUP_ID: Unknown''\<rparr>],
          differing_fields = []\<rparr>"
    (is "compare_nodes ?A ?B = Inr ?R")
    by code_simp
  have p: "(\<forall>k a. map_of ?A k = Some a \<longrightarrow> a \<noteq> []) \<and> (\<forall>k b. map_of ?B k = Some b \<longrightarrow> b \<noteq> [])"
    by (simp split: if_splits)
  have n: "\<not> py_eq (dict_get ?a ''v'' JNull) (dict_get ?a ''v'' JNull)"
    by (simp add: dict_get_def)
  note t = differing_fields_correct [THEN conjunct2, rule_format, OF p]
  from t obtain res where r: "compare_nodes ?A ?B = Inr res"
    and g: "\<forall>k a b. map_of ?A k = Some a \<and> map_of ?B k = Some b \<longrightarrow>
              (k \<in> set (map fst (differing_fields res)) \<longleftrightarrow>
                 \<not> dict_eq a b \<and> (\<exists>f. \<not> py_eq (dict_get a f JNull) (dict_get b f JNull)))"
    by (elim exE conjE) blast
  from r e have res: "res = ?R" by simp
  have q: "map_of ?A ''1'' = Some ?a \<and> map_of ?B ''1'' = Some ?a" by simp
  from g [rule_format, OF q] have
    "\<not> (\<not> dict_eq ?a ?a \<and> (\<exists>f. \<not> py_eq (dict_get ?a f JNull) (dict_get ?a f JNull)))"
    unfolding res by simp
  with n have "dict_eq ?a ?a" by blast
  with e n show ?thesis by (intro conjI)
qed

theorem bool_int_equal_counterexample:
  "JInt 1 \<noteq> JBool True \<and>
   compare_nodes
     [(''1'', [(''nodeid'', JStr ''1''), (''flag'', JInt 1)])]
     [(''1'', [(''nodeid'', JStr ''1''), (''flag'', JBool True)])]
   = Inr \<lparr>only_in_first_file = [], only_in_second_file = [],
          present_in_both =
            [\<lparr>nodeid = ''1'', name = JStr ''Unknown'', nodegroup_id = ''NODE_GROUP_ID: Unknown''\<rparr>],
          differing_fields = []\<rparr>"
proof (intro conjI)
  show "JInt 1 \<noteq> JBool True" by simp
  show "compare_nodes
     [(''1'', [(''nodeid'', JStr ''1''), (''flag'', JInt 1)])]
     [(''1'', [(''nodeid'', JStr ''1''), (''flag'', JBool True)])]
   = Inr \<lparr>only_in_first_file = [], only_in_second_file = [],
          present_in_both =
            [\<lparr>nodeid = ''1'', name = JStr ''Unknown'', nodegroup_id = ''NODE_GROUP_ID: Unknown''\<rparr>],
          differing_fields = []\<rparr>"
    by code_simp
qed

text \<open>
  C10.  The branches of \<^verbatim>\<open>compare_nodes\<close> test the truth value of the looked-up record.  A
  node identifier with an empty record on one side and no entry on the other takes the last
  branch, where the attribute access on \<^verbatim>\<open>None\<close> raises (\<^verbatim>\<open>node_b.keys\<close> when the second index
  lacks it, \<^verbatim>\<open>node_a.get\<close> when the first does), so the whole call raises; an identifier with
  an empty record on one side and a non-empty one on the other is classified as present only
  on the non-empty side.  When every record of both indexes is non-empty, the call returns.
\<close>

theorem compare_nodes_truthiness:
  "((\<forall>k a. map_of file_a_nodes k = Some a \<longrightarrow> a \<noteq> []) \<and>
    (\<forall>k b. map_of file_b_nodes k = Some b \<longrightarrow> b \<noteq> []) \<longrightarrow>
      (\<exists>res. compare_nodes file_a_nodes file_b_nodes = Inr res)) \<and>
   (map_of file_a_nodes k = Some [] \<and> map_of file_b_nodes k = None \<longrightarrow>
      compare_step k file_a_nodes file_b_nodes r = Inl (AttributeError ''keys'') \<and>
      (\<exists>e. compare_nodes file_a_nodes file_b_nodes = Inl e)) \<and>
   (map_of file_a_nodes k = None \<and> map_of file_b_nodes k = Some [] \<longrightarrow>
      compare_step k file_a_nodes file_b_nodes r = Inl (AttributeError ''get'') \<and>
      (\<exists>e. compare_nodes file_a_nodes file_b_nodes = Inl e)) \<and>
   (\<forall>b. map_of file_a_nodes k = Some [] \<and> map_of file_b_nodes k = Some b \<and> b \<noteq> [] \<longrightarrow>
      compare_step k file_a_nodes file_b_nodes r =
        Inr (r\<lparr>only_in_second_file := only_in_second_file r @ [summary_record k b]\<rparr>))"
proof -
  let ?A = file_a_nodes and ?B = file_b_nodes
  have total: "\<exists>res. compare_nodes ?A ?B = Inr res"
    if ne: "\<forall>k a. map_of ?A k = Some a \<longrightarrow> a \<noteq> []" "\<forall>k b. map_of ?B k = Some b \<longrightarrow> b \<noteq> []"
  proof -
    have "\<not> step_fails ?A ?B k" if "k \<in> set (node_ids ?A ?B)" for k
    proof -
      from that have "map_of ?A k \<noteq> None \<or> map_of ?B k \<noteq> None"
        unfolding set_node_ids by (auto simp: map_of_eq_None_iff)
      with ne show ?thesis
        unfolding step_fails_def in_both_def node_truthy_def
        by (auto split: option.splits)
    qed
    then have "compare_nodes ?A ?B = Inr (closed_results ?A ?B)"
      by (intro compare_nodes_ok) blast
    then show ?thesis by blast
  qed
  have keys: "compare_step k ?A ?B r = Inl (AttributeError ''keys'') \<and>
      (\<exists>e. compare_nodes ?A ?B = Inl e)"
    if "map_of ?A k = Some []" "map_of ?B k = None"
  proof -
    from that have s: "compare_step k ?A ?B r = Inl (AttributeError ''keys'')"
      unfolding compare_step_eq in_first_def in_second_def node_truthy_def by simp
    from that have "k \<in> set (node_ids ?A ?B)" "step_fails ?A ?B k"
      unfolding step_fails_def in_both_def node_truthy_def by (simp_all add: key_in_node_ids)
    then have "\<exists>e. compare_nodes ?A ?B = Inl e" by (intro compare_nodes_fail) blast
    with s show ?thesis by blast
  qed
  have get: "compare_step k ?A ?B r = Inl (AttributeError ''get'') \<and>
      (\<exists>e. compare_nodes ?A ?B = Inl e)"
    if "map_of ?A k = None" "map_of ?B k = Some []"
  proof -
    from that have s: "compare_step k ?A ?B r = Inl (AttributeError ''get'')"
      unfolding compare_step_eq in_first_def in_second_def node_truthy_def by simp
    from that have "k \<in> set (node_ids ?A ?B)" "step_fails ?A ?B k"
      unfolding step_fails_def in_both_def node_truthy_def by (simp_all add: key_in_node_ids)
    then have "\<exists>e. compare_nodes ?A ?B = Inl e" by (intro compare_nodes_fail) blast
    with s show ?thesis by blast
  qed
  have snd: "compare_step k ?A ?B r =
        Inr (r\<lparr>only_in_second_file := only_in_second_file r @ [summary_record k b]\<rparr>)"
    if "map_of ?A k = Some []" "map_of ?B k = Some b" "b \<noteq> []" for b
    using that unfolding compare_step_eq in_first_def in_second_def node_truthy_def by simp
  from total keys get snd show ?thesis by blast
qed

theorem compare_nodes_truthiness_witness:
  "(\<exists>res. compare_nodes [(''k'', [(''nodeid'', JStr ''k'')])] [] = Inr res) \<and>
   compare_step ''k'' [(''k'', [])] []
     \<lparr>only_in_first_file = [], only_in_second_file = [], present_in_both = [],
      differing_fields = []\<rparr> = Inl (AttributeError ''keys'') \<and>
   (\<exists>e. compare_nodes [(''k'', [])] [] = Inl e) \<and>
   compare_step ''k'' [] [(''k'', [])]
     \<lparr>only_in_first_file = [], only_in_second_file = [], present_in_both = [],
      differing_fields = []\<rparr> = Inl (AttributeError ''get'') \<and>
   (\<exists>e. compare_nodes [] [(''k'', [])] = Inl e)"
proof -
  let ?r = "\<lparr>only_in_first_file = [], only_in_second_file = [], present_in_both = [],
      differing_fields = []\<rparr>"
  have p1: "(\<forall>k a. map_of [(''k'', [(''nodeid'', JStr ''k'')])] k = Some a \<longrightarrow> a \<noteq> []) \<and>
            (\<forall>k b. map_of ([] :: node_index) k = Some b \<longrightarrow> b \<noteq> [])"
    by (simp split: if_splits)
  have p2: "map_of [(''k'', [])] ''k'' = Some ([] :: node) \<and> map_of ([] :: node_index) ''k'' = None"
    by simp
  have p3: "map_of ([] :: node_index) ''k'' = None \<and> map_of [(''k'', [])] ''k'' = Some ([] :: node)"
    by simp
  note t1 = compare_nodes_truthiness
    [where file_a_nodes = "[(''k'', [(''nodeid'', JStr ''k'')])]" and file_b_nodes = "[]",
     THEN conjunct1, rule_format, OF p1]
  note t2 = compare_nodes_truthiness
    [where file_a_nodes = "[(''k'', [])]" and file_b_nodes = "[]" and k = "''k''" and r = ?r,
     THEN conjunct2, THEN conjunct1, rule_format, OF p2]
  note t3 = compare_nodes_truthiness
    [where file_a_nodes = "[]" and file_b_nodes = "[(''k'', [])]" and k = "''k''" and r = ?r,
     THEN conjunct2, THEN conjunct2, THEN conjunct1, rule_format, OF p3]
  from t1 t2 t3 show ?thesis by (intro conjI) (erule conjunct1 conjunct2 | assumption)+
qed

end
